theory Spec2Isabelle
  imports Main "HOL-Library.Word"
begin

section \<open>The marbles chaincode (part2_chaincode.go)\<close>

text \<open>
  A shallow embedding of \<^verbatim>\<open>hyperledger/part2/part2_chaincode.go\<close>: the item
  ("bet") repository, the order book of open trades, the matching lookup
  \<^verbatim>\<open>findBet4Trade\<close>, the swap \<^verbatim>\<open>perform_trade\<close> and the
  reconciler \<^verbatim>\<open>cleanTrades\<close>, with the dispatchers \<^verbatim>\<open>Invoke\<close> and
  \<^verbatim>\<open>Query\<close>.

  What lies outside the source file is modelled as follows.
  \<^item> The ledger is a finite map from keys to byte strings, together with the log of the
    writes issued so far. The host is taken to be reliable: \<^verbatim>\<open>GetState\<close>,
    \<^verbatim>\<open>PutState\<close> and \<^verbatim>\<open>DelState\<close> never report an error, so the
    branches of the source that only relay such an error have no counterpart. A key that
    is absent reads as the empty byte string, as in the shim.
  \<^item> Go's \<^verbatim>\<open>int\<close> is the 64-bit integer of the platforms the chaincode runs
    on; \<^verbatim>\<open>int\<close> and \<^verbatim>\<open>int64\<close> are both words of 64 bits.
  \<^item> Strings are byte strings. \<^verbatim>\<open>strings.ToLower\<close> and the case-insensitive
    matching of JSON keys are modelled on the ASCII letters; bytes from 0x80 on are left as
    they are (Go maps non-ASCII letters too, and replaces bytes that are not UTF-8).
  \<^item> \<^verbatim>\<open>encoding/json\<close> is modelled by a JSON reader and printer over byte
    strings: \<^verbatim>\<open>Unmarshal\<close> checks the whole text first and leaves its target
    untouched when the text is not JSON, skips keys that name no field, skips values of
    the wrong shape, and lets a later duplicate key win; \<^verbatim>\<open>Marshal\<close> prints
    compact text with the escapes of the Go encoder of the chaincode's time.
  \<^item> \<^verbatim>\<open>time.Now\<close> is a parameter of the operations that read the clock.
  \<^item> \<^verbatim>\<open>fmt.Println\<close> output is not modelled.
  \<^item> The type \<^verbatim>\<open>Description\<close> declares its quantity as \<^verbatim>\<open>Amount\<close>
    (JSON key \<^verbatim>\<open>amount\<close>), while every use in the file reads and writes it as
    \<^verbatim>\<open>.Size\<close>; the model has the one field \<open>Amount\<close> and reads each
    \<^verbatim>\<open>.Size\<close> of a description as that field.
\<close>

subsection \<open>strconv and strings\<close>

type_synonym int64 = "64 word"

definition is_digit :: "char \<Rightarrow> bool" where
  "is_digit c = (48 \<le> (of_char c :: int) \<and> (of_char c :: int) \<le> 57)"

definition digit_val :: "char \<Rightarrow> int" where
  "digit_val c = of_char c - 48"

definition digits_val :: "string \<Rightarrow> int" where
  "digits_val ds = foldl (\<lambda>n c. n * 10 + digit_val c) 0 ds"

text \<open>
  \<^verbatim>\<open>strconv.ParseInt(s, 10, 64)\<close>: an optional sign, then one or more decimal
  digits, and a value that fits 64 bits; \<open>None\<close> stands for the syntax and the range
  error alike (the callers only test \<^verbatim>\<open>err != nil\<close>).
\<close>

definition ParseInt :: "string \<Rightarrow> int64 option" where
  "ParseInt s =
     (let neg = (s \<noteq> [] \<and> hd s = CHR ''-'');
          ds = (if s \<noteq> [] \<and> (hd s = CHR ''-'' \<or> hd s = CHR ''+'') then tl s else s)
      in if ds = [] \<or> \<not> list_all is_digit ds then None
         else let un = digits_val ds; v = (if neg then - un else un)
              in if - (2 ^ 63) \<le> v \<and> v < 2 ^ 63 then Some (word_of_int v) else None)"

definition Atoi :: "string \<Rightarrow> int64 option" where
  "Atoi s = ParseInt s"

function digits_of :: "int \<Rightarrow> string" where
  "digits_of n =
     (if n < 10 then [char_of (48 + n)]
      else digits_of (n div 10) @ [char_of (48 + n mod 10)])"
  by pat_completeness auto
termination
  by (relation "measure nat") auto

declare digits_of.simps [simp del]

definition FormatInt :: "int64 \<Rightarrow> string" where
  "FormatInt w =
     (if sint w < 0 then CHR ''-'' # digits_of (- sint w) else digits_of (sint w))"

definition Itoa :: "int64 \<Rightarrow> string" where
  "Itoa w = FormatInt w"

definition to_lower :: "char \<Rightarrow> char" where
  "to_lower c =
     (if 65 \<le> (of_char c :: int) \<and> (of_char c :: int) \<le> 90
      then char_of ((of_char c :: int) + 32) else c)"

definition ToLower :: "string \<Rightarrow> string" where
  "ToLower s = map to_lower s"

subsection \<open>encoding/json: reading\<close>

datatype json = JNull | JBool bool | JNum string | JStr string
  | JArr "json list" | JObj "(string \<times> json) list"

datatype token = TLBrace | TRBrace | TLBrack | TRBrack | TColon | TComma
  | TStr string | TNum string | TTrue | TFalse | TNull

definition isSpace :: "char \<Rightarrow> bool" where
  "isSpace c = (c = CHR '' '' \<or> c = CHR 0x09 \<or> c = CHR 0x0D \<or> c = CHR 0x0A)"

definition hex_val :: "char \<Rightarrow> int option" where
  "hex_val c =
     (let n = (of_char c :: int)
      in if 48 \<le> n \<and> n \<le> 57 then Some (n - 48)
         else if 97 \<le> n \<and> n \<le> 102 then Some (n - 87)
         else if 65 \<le> n \<and> n \<le> 70 then Some (n - 55)
         else None)"

text \<open>The code unit of an escape \<^verbatim>\<open>\uXXXX\<close> at the head of the text.\<close>

fun getu4 :: "string \<Rightarrow> int option" where
  "getu4 (b # u # h1 # h2 # h3 # h4 # _) =
     (if b = CHR 0x5C \<and> u = CHR ''u'' then
        (case (hex_val h1, hex_val h2, hex_val h3, hex_val h4) of
           (Some a, Some b, Some c, Some d) \<Rightarrow> Some (((a * 16 + b) * 16 + c) * 16 + d)
         | _ \<Rightarrow> None)
      else None)"
| "getu4 _ = None"

definition EncodeRune :: "int \<Rightarrow> string" where
  "EncodeRune r =
     (if r < 0x80 then [char_of r]
      else if r < 0x800 then [char_of (0xC0 + r div 64), char_of (0x80 + r mod 64)]
      else if r < 0x10000 then
        [char_of (0xE0 + r div 4096), char_of (0x80 + (r div 64) mod 64),
         char_of (0x80 + r mod 64)]
      else
        [char_of (0xF0 + r div 262144), char_of (0x80 + (r div 4096) mod 64),
         char_of (0x80 + (r div 64) mod 64), char_of (0x80 + r mod 64)])"

definition IsSurrogate :: "int \<Rightarrow> bool" where
  "IsSurrogate r = (0xD800 \<le> r \<and> r < 0xE000)"

definition DecodeRune :: "int \<Rightarrow> int \<Rightarrow> int" where
  "DecodeRune r1 r2 =
     (if 0xD800 \<le> r1 \<and> r1 < 0xDC00 \<and> 0xDC00 \<le> r2 \<and> r2 < 0xE000
      then (r1 - 0xD800) * 1024 + (r2 - 0xDC00) + 0x10000 else 0xFFFD)"

definition simple_escape :: "char \<Rightarrow> char option" where
  "simple_escape e =
     (if e = CHR 0x22 \<or> e = CHR 0x5C \<or> e = CHR ''/'' then Some e
      else if e = CHR ''b'' then Some (CHR 0x08)
      else if e = CHR ''f'' then Some (CHR 0x0C)
      else if e = CHR ''n'' then Some (CHR 0x0A)
      else if e = CHR ''r'' then Some (CHR 0x0D)
      else if e = CHR ''t'' then Some (CHR 0x09)
      else None)"

text \<open>
  One unit of a string literal that starts with the byte \<open>c\<close>: an escape (a lone
  surrogate becomes U+FFFD, a surrogate pair one code point) or a plain byte; control
  bytes are refused. The result is the decoded bytes and the text after the unit.
\<close>

definition string_unit :: "char \<Rightarrow> string \<Rightarrow> (string \<times> string) option" where
  "string_unit c cs =
     (if c = CHR 0x5C then
        (case cs of
           [] \<Rightarrow> None
         | e # r \<Rightarrow>
             if e = CHR ''u'' then
               (case getu4 (c # cs) of
                  None \<Rightarrow> None
                | Some rr \<Rightarrow>
                    if IsSurrogate rr then
                      (case getu4 (drop 4 r) of
                         None \<Rightarrow> Some (EncodeRune 0xFFFD, drop 4 r)
                       | Some rr1 \<Rightarrow>
                           if DecodeRune rr rr1 \<noteq> 0xFFFD
                           then Some (EncodeRune (DecodeRune rr rr1), drop 10 r)
                           else Some (EncodeRune 0xFFFD, drop 4 r))
                    else Some (EncodeRune rr, drop 4 r))
             else
               (case simple_escape e of
                  None \<Rightarrow> None
                | Some d \<Rightarrow> Some ([d], r)))
      else if (of_char c :: int) < 0x20 then None
      else Some ([c], cs))"

lemma string_unit_length: "string_unit c cs = Some (d, r) \<Longrightarrow> length r \<le> length cs"
  by (auto simp: string_unit_def split: if_splits list.splits option.splits)

definition prepend :: "string \<Rightarrow> (string \<times> string) option \<Rightarrow> (string \<times> string) option" where
  "prepend x r = (case r of None \<Rightarrow> None | Some (s, rest) \<Rightarrow> Some (x @ s, rest))"

text \<open>
  The string literal whose opening quote has been read: its decoded content and the
  text after its closing quote.
\<close>

function unquote :: "string \<Rightarrow> (string \<times> string) option" where
  "unquote [] = None"
| "unquote (c # cs) =
     (if c = CHR 0x22 then Some ([], cs)
      else (case string_unit c cs of
              None \<Rightarrow> None
            | Some (d, r) \<Rightarrow> prepend d (unquote r)))"
  by pat_completeness auto
termination
  by (relation "measure length") (auto dest: string_unit_length)

lemma unquote_length: "unquote cs = Some (s, rest) \<Longrightarrow> length rest < length cs"
proof (induction cs arbitrary: s rest rule: unquote.induct)
  case 1
  then show ?case by simp
next
  case (2 c cs)
  show ?case
  proof (cases "c = CHR 0x22")
    case True
    with 2 show ?thesis by simp
  next
    case False
    with 2(2) obtain d r s' where u: "string_unit c cs = Some (d, r)"
      and q: "unquote r = Some (s', rest)"
      by (auto simp: prepend_def split: option.splits prod.splits)
    from 2(1) [OF False u refl q] string_unit_length [OF u] show ?thesis by simp
  qed
qed

definition is_numch :: "char \<Rightarrow> bool" where
  "is_numch c =
     (is_digit c \<or> c = CHR ''-'' \<or> c = CHR ''+'' \<or> c = CHR ''.'' \<or> c = CHR ''e'' \<or> c = CHR ''E'')"

definition valid_exp :: "string \<Rightarrow> bool" where
  "valid_exp s =
     (case s of
        [] \<Rightarrow> True
      | c # t \<Rightarrow>
          (c = CHR ''e'' \<or> c = CHR ''E'') \<and>
          (let ds = (case t of [] \<Rightarrow> [] | g # u \<Rightarrow> if g = CHR ''+'' \<or> g = CHR ''-'' then u else t)
           in ds \<noteq> [] \<and> list_all is_digit ds))"

definition valid_frac :: "string \<Rightarrow> bool" where
  "valid_frac s =
     (case s of
        [] \<Rightarrow> True
      | c # t \<Rightarrow>
          if c = CHR ''.'' then takeWhile is_digit t \<noteq> [] \<and> valid_exp (dropWhile is_digit t)
          else valid_exp s)"

text \<open>The number literals of JSON: \<^verbatim>\<open>-?(0|[1-9][0-9]*)(\.[0-9]+)?([eE][+-]?[0-9]+)?\<close>.\<close>

definition valid_number :: "string \<Rightarrow> bool" where
  "valid_number s =
     (case (case s of [] \<Rightarrow> [] | c # t \<Rightarrow> if c = CHR ''-'' then t else s) of
        [] \<Rightarrow> False
      | d # t \<Rightarrow>
          if d = CHR ''0'' then valid_frac t
          else is_digit d \<and> valid_frac (dropWhile is_digit t))"

definition emit :: "token \<Rightarrow> token list option \<Rightarrow> token list option" where
  "emit t r = (case r of None \<Rightarrow> None | Some ts \<Rightarrow> Some (t # ts))"

function lex :: "string \<Rightarrow> token list option" where
  "lex [] = Some []"
| "lex (c # cs) =
     (if isSpace c then lex cs
      else if c = CHR ''{'' then emit TLBrace (lex cs)
      else if c = CHR ''}'' then emit TRBrace (lex cs)
      else if c = CHR ''['' then emit TLBrack (lex cs)
      else if c = CHR '']'' then emit TRBrack (lex cs)
      else if c = CHR '':'' then emit TColon (lex cs)
      else if c = CHR '','' then emit TComma (lex cs)
      else if c = CHR 0x22 then
        (case unquote cs of
           None \<Rightarrow> None
         | Some (s, rest) \<Rightarrow> emit (TStr s) (lex rest))
      else if c = CHR ''-'' \<or> is_digit c then
        (if valid_number (c # takeWhile is_numch cs)
         then emit (TNum (c # takeWhile is_numch cs)) (lex (dropWhile is_numch cs))
         else None)
      else if c = CHR ''t'' then
        (if take 3 cs = ''rue'' then emit TTrue (lex (drop 3 cs)) else None)
      else if c = CHR ''f'' then
        (if take 4 cs = ''alse'' then emit TFalse (lex (drop 4 cs)) else None)
      else if c = CHR ''n'' then
        (if take 3 cs = ''ull'' then emit TNull (lex (drop 3 cs)) else None)
      else None)"
  by pat_completeness auto
termination
  by (relation "measure length")
     (auto dest: unquote_length simp: less_Suc_eq_le length_dropWhile_le)

declare lex.simps(2) [simp del]

text \<open>
  The grammar is checked by a pushdown automaton over the tokens: a stack of the arrays
  and objects that are open, each with its finished elements (latest first), and a mode
  that says what may come next.
\<close>

datatype frame = FArr "json list" | FObj "(string \<times> json) list"
  | FKey "(string \<times> json) list" string

datatype pmode = ExpValue | ExpValueOrClose | ExpKeyOrClose | ExpKey | ExpColon | ExpSep
  | Finished json

fun deliver :: "json \<Rightarrow> frame list \<Rightarrow> (pmode \<times> frame list) option" where
  "deliver v [] = Some (Finished v, [])"
| "deliver v (FArr acc # stk) = Some (ExpSep, FArr (v # acc) # stk)"
| "deliver v (FKey acc k # stk) = Some (ExpSep, FObj ((k, v) # acc) # stk)"
| "deliver v (FObj acc # stk) = None"

fun close_arr :: "frame list \<Rightarrow> (pmode \<times> frame list) option" where
  "close_arr (FArr acc # stk) = deliver (JArr (rev acc)) stk"
| "close_arr _ = None"

fun close_obj :: "frame list \<Rightarrow> (pmode \<times> frame list) option" where
  "close_obj (FObj acc # stk) = deliver (JObj (rev acc)) stk"
| "close_obj _ = None"

fun open_key :: "string \<Rightarrow> frame list \<Rightarrow> (pmode \<times> frame list) option" where
  "open_key k (FObj acc # stk) = Some (ExpColon, FKey acc k # stk)"
| "open_key k _ = None"

fun begin_value :: "token \<Rightarrow> frame list \<Rightarrow> (pmode \<times> frame list) option" where
  "begin_value (TStr s) stk = deliver (JStr s) stk"
| "begin_value (TNum n) stk = deliver (JNum n) stk"
| "begin_value TTrue stk = deliver (JBool True) stk"
| "begin_value TFalse stk = deliver (JBool False) stk"
| "begin_value TNull stk = deliver JNull stk"
| "begin_value TLBrack stk = Some (ExpValueOrClose, FArr [] # stk)"
| "begin_value TLBrace stk = Some (ExpKeyOrClose, FObj [] # stk)"
| "begin_value _ stk = None"

fun pstep :: "pmode \<Rightarrow> frame list \<Rightarrow> token \<Rightarrow> (pmode \<times> frame list) option" where
  "pstep ExpValue stk t = begin_value t stk"
| "pstep ExpValueOrClose stk t = (if t = TRBrack then close_arr stk else begin_value t stk)"
| "pstep ExpKeyOrClose stk t =
     (case t of TStr k \<Rightarrow> open_key k stk | TRBrace \<Rightarrow> close_obj stk | _ \<Rightarrow> None)"
| "pstep ExpKey stk t = (case t of TStr k \<Rightarrow> open_key k stk | _ \<Rightarrow> None)"
| "pstep ExpColon stk t = (if t = TColon then Some (ExpValue, stk) else None)"
| "pstep ExpSep stk t =
     (case t of
        TComma \<Rightarrow>
          (case stk of
             FArr acc # r \<Rightarrow> Some (ExpValue, stk)
           | FObj acc # r \<Rightarrow> Some (ExpKey, stk)
           | _ \<Rightarrow> None)
      | TRBrack \<Rightarrow> close_arr stk
      | TRBrace \<Rightarrow> close_obj stk
      | _ \<Rightarrow> None)"
| "pstep (Finished v) stk t = None"

fun prun :: "(pmode \<times> frame list) option \<Rightarrow> token list \<Rightarrow> (pmode \<times> frame list) option" where
  "prun st [] = st"
| "prun None (t # ts) = None"
| "prun (Some (m, stk)) (t # ts) = prun (pstep m stk t) ts"

definition parse_tokens :: "token list \<Rightarrow> json option" where
  "parse_tokens ts =
     (case prun (Some (ExpValue, [])) ts of
        Some (Finished v, []) \<Rightarrow> Some v
      | _ \<Rightarrow> None)"

text \<open>The value of a JSON text, \<open>None\<close> when the text is not valid JSON.\<close>

definition parse_json :: "string \<Rightarrow> json option" where
  "parse_json b = (case lex b of None \<Rightarrow> None | Some ts \<Rightarrow> parse_tokens ts)"

subsection \<open>encoding/json: printing\<close>

definition hexdigit :: "int \<Rightarrow> char" where
  "hexdigit n = (if n < 10 then char_of (48 + n) else char_of (87 + n))"

text \<open>
  The encoder escapes the backslash and the quote, writes newline, carriage return and
  tab by their short escapes and every other control byte, and \<^verbatim>\<open><\<close>,
  \<^verbatim>\<open>>\<close> and \<^verbatim>\<open>&\<close>, as \<^verbatim>\<open>\u00XX\<close>.
\<close>

definition quote_char :: "char \<Rightarrow> string" where
  "quote_char c =
     (if c = CHR 0x5C \<or> c = CHR 0x22 then [CHR 0x5C, c]
      else if c = CHR 0x0A then [CHR 0x5C, CHR ''n'']
      else if c = CHR 0x0D then [CHR 0x5C, CHR ''r'']
      else if c = CHR 0x09 then [CHR 0x5C, CHR ''t'']
      else if (of_char c :: int) < 0x20 \<or> c = CHR ''<'' \<or> c = CHR ''>'' \<or> c = CHR ''&'' then
        [CHR 0x5C, CHR ''u'', CHR ''0'', CHR ''0'',
         hexdigit (of_char c div 16), hexdigit (of_char c mod 16)]
      else [c])"

definition quote :: "string \<Rightarrow> string" where
  "quote s = CHR 0x22 # concat (map quote_char s) @ [CHR 0x22]"

fun commas :: "string list \<Rightarrow> string" where
  "commas [] = []"
| "commas [x] = x"
| "commas (x # y # ys) = x @ CHR '','' # commas (y # ys)"

fun print_json :: "json \<Rightarrow> string" where
  "print_json JNull = ''null''"
| "print_json (JBool b) = (if b then ''true'' else ''false'')"
| "print_json (JNum n) = n"
| "print_json (JStr s) = quote s"
| "print_json (JArr xs) = CHR ''['' # commas (map print_json xs) @ '']''"
| "print_json (JObj ms) =
     CHR ''{'' # commas (map (\<lambda>m. quote (fst m) @ CHR '':'' # print_json (snd m)) ms) @ ''}''"

subsection \<open>Slices\<close>

text \<open>
  A Go slice is a list, or \<^verbatim>\<open>nil\<close>: the two differ in what
  \<^verbatim>\<open>json.Marshal\<close> prints (\<^verbatim>\<open>null\<close> for the nil slice,
  \<^verbatim>\<open>[]\<close> for the empty one).
\<close>

datatype 'a slice = NilSlice | Slice "'a list"

fun elems :: "'a slice \<Rightarrow> 'a list" where
  "elems NilSlice = []"
| "elems (Slice xs) = xs"

definition len :: "'a slice \<Rightarrow> int" where
  "len s = int (length (elems s))"

text \<open>\<^verbatim>\<open>s[i]\<close>; \<open>None\<close> is the run-time panic "index out of range".\<close>

definition at :: "'a slice \<Rightarrow> int \<Rightarrow> 'a option" where
  "at s i = (if 0 \<le> i \<and> i < len s then Some (elems s ! nat i) else None)"

text \<open>\<^verbatim>\<open>s[i] = v\<close> for an index in range.\<close>

definition set_at :: "'a slice \<Rightarrow> int \<Rightarrow> 'a \<Rightarrow> 'a slice" where
  "set_at s i v = Slice ((elems s)[nat i := v])"

text \<open>\<^verbatim>\<open>append(s, x)\<close>.\<close>

definition append1 :: "'a slice \<Rightarrow> 'a \<Rightarrow> 'a slice" where
  "append1 s x = Slice (elems s @ [x])"

text \<open>\<^verbatim>\<open>append(s[:i], s[i+1:]...)\<close> for an index in range.\<close>

definition remove_at :: "'a slice \<Rightarrow> int \<Rightarrow> 'a slice" where
  "remove_at s i = Slice (take (nat i) (elems s) @ drop (nat i + 1) (elems s))"

subsection \<open>The records and their JSON form\<close>

record Bet =
  Name :: string
  Color :: string
  Size :: int64
  User :: string

record Description =
  DColor :: string
  Amount :: int64

record AnOpenTrade =
  TUser :: string
  Timestamp :: int64
  Want :: Description
  Willing :: "Description slice"

record AllTrades =
  OpenTrades :: "AnOpenTrade slice"

definition zero_Bet :: Bet where
  "zero_Bet = \<lparr>Name = [], Color = [], Size = 0, User = []\<rparr>"

definition zero_Description :: Description where
  "zero_Description = \<lparr>DColor = [], Amount = 0\<rparr>"

definition zero_AnOpenTrade :: AnOpenTrade where
  "zero_AnOpenTrade = \<lparr>TUser = [], Timestamp = 0, Want = zero_Description, Willing = NilSlice\<rparr>"

definition zero_AllTrades :: AllTrades where
  "zero_AllTrades = \<lparr>OpenTrades = NilSlice\<rparr>"

text \<open>
  Decoding a JSON value into a target that holds \<open>cur\<close>: a value of the wrong shape
  (and \<^verbatim>\<open>null\<close>) leaves a string, a number or a struct as it is; a number
  literal that is not a 64-bit integer leaves an integer field as it is; an array makes
  a slice of elements decoded from the zero value, \<^verbatim>\<open>null\<close> the nil slice.
  A key selects the field whose tag it equals up to the case of its letters.
\<close>

definition decode_string :: "json \<Rightarrow> string \<Rightarrow> string" where
  "decode_string v cur = (case v of JStr s \<Rightarrow> s | _ \<Rightarrow> cur)"

definition decode_int :: "json \<Rightarrow> int64 \<Rightarrow> int64" where
  "decode_int v cur =
     (case v of
        JNum n \<Rightarrow> (case ParseInt n of Some i \<Rightarrow> i | None \<Rightarrow> cur)
      | _ \<Rightarrow> cur)"

definition decode_slice :: "(json \<Rightarrow> 'a) \<Rightarrow> json \<Rightarrow> 'a slice \<Rightarrow> 'a slice" where
  "decode_slice f v cur =
     (case v of JArr xs \<Rightarrow> Slice (map f xs) | JNull \<Rightarrow> NilSlice | _ \<Rightarrow> cur)"

definition set_Bet_field :: "Bet \<Rightarrow> string \<times> json \<Rightarrow> Bet" where
  "set_Bet_field b m =
     (let k = ToLower (fst m)
      in if k = ''name'' then b\<lparr>Name := decode_string (snd m) (Name b)\<rparr>
         else if k = ''color'' then b\<lparr>Color := decode_string (snd m) (Color b)\<rparr>
         else if k = ''size'' then b\<lparr>Size := decode_int (snd m) (Size b)\<rparr>
         else if k = ''user'' then b\<lparr>User := decode_string (snd m) (User b)\<rparr>
         else b)"

definition decode_Bet :: "json \<Rightarrow> Bet \<Rightarrow> Bet" where
  "decode_Bet v cur = (case v of JObj ms \<Rightarrow> foldl set_Bet_field cur ms | _ \<Rightarrow> cur)"

definition set_Description_field :: "Description \<Rightarrow> string \<times> json \<Rightarrow> Description" where
  "set_Description_field d m =
     (let k = ToLower (fst m)
      in if k = ''color'' then d\<lparr>DColor := decode_string (snd m) (DColor d)\<rparr>
         else if k = ''amount'' then d\<lparr>Amount := decode_int (snd m) (Amount d)\<rparr>
         else d)"

definition decode_Description :: "json \<Rightarrow> Description \<Rightarrow> Description" where
  "decode_Description v cur =
     (case v of JObj ms \<Rightarrow> foldl set_Description_field cur ms | _ \<Rightarrow> cur)"

definition set_AnOpenTrade_field :: "AnOpenTrade \<Rightarrow> string \<times> json \<Rightarrow> AnOpenTrade" where
  "set_AnOpenTrade_field t m =
     (let k = ToLower (fst m)
      in if k = ''user'' then t\<lparr>TUser := decode_string (snd m) (TUser t)\<rparr>
         else if k = ''timestamp'' then t\<lparr>Timestamp := decode_int (snd m) (Timestamp t)\<rparr>
         else if k = ''want'' then t\<lparr>Want := decode_Description (snd m) (Want t)\<rparr>
         else if k = ''willing'' then
           t\<lparr>Willing :=
               decode_slice (\<lambda>x. decode_Description x zero_Description) (snd m) (Willing t)\<rparr>
         else t)"

definition decode_AnOpenTrade :: "json \<Rightarrow> AnOpenTrade \<Rightarrow> AnOpenTrade" where
  "decode_AnOpenTrade v cur =
     (case v of JObj ms \<Rightarrow> foldl set_AnOpenTrade_field cur ms | _ \<Rightarrow> cur)"

definition set_AllTrades_field :: "AllTrades \<Rightarrow> string \<times> json \<Rightarrow> AllTrades" where
  "set_AllTrades_field a m =
     (if ToLower (fst m) = ''open_trades'' then
        a\<lparr>OpenTrades :=
            decode_slice (\<lambda>x. decode_AnOpenTrade x zero_AnOpenTrade) (snd m) (OpenTrades a)\<rparr>
      else a)"

definition decode_AllTrades :: "json \<Rightarrow> AllTrades \<Rightarrow> AllTrades" where
  "decode_AllTrades v cur =
     (case v of JObj ms \<Rightarrow> foldl set_AllTrades_field cur ms | _ \<Rightarrow> cur)"

text \<open>
  \<^verbatim>\<open>json.Unmarshal(data, &x)\<close> for the four targets of the file, \<open>cur\<close>
  being what \<open>x\<close> holds before the call; the error it returns is dropped at every call
  site.
\<close>

definition Unmarshal_Bet :: "string \<Rightarrow> Bet \<Rightarrow> Bet" where
  "Unmarshal_Bet input cur =
     (case parse_json input of None \<Rightarrow> cur | Some v \<Rightarrow> decode_Bet v cur)"

definition Unmarshal_AllTrades :: "string \<Rightarrow> AllTrades \<Rightarrow> AllTrades" where
  "Unmarshal_AllTrades input cur =
     (case parse_json input of None \<Rightarrow> cur | Some v \<Rightarrow> decode_AllTrades v cur)"

definition Unmarshal_strings :: "string \<Rightarrow> string slice \<Rightarrow> string slice" where
  "Unmarshal_strings input cur =
     (case parse_json input of
        None \<Rightarrow> cur
      | Some v \<Rightarrow> decode_slice (\<lambda>x. decode_string x []) v cur)"

definition json_of_slice :: "('a \<Rightarrow> json) \<Rightarrow> 'a slice \<Rightarrow> json" where
  "json_of_slice f s = (case s of NilSlice \<Rightarrow> JNull | Slice xs \<Rightarrow> JArr (map f xs))"

definition json_of_Bet :: "Bet \<Rightarrow> json" where
  "json_of_Bet b =
     JObj [(''name'', JStr (Name b)), (''color'', JStr (Color b)),
           (''size'', JNum (FormatInt (Size b))), (''user'', JStr (User b))]"

definition json_of_Description :: "Description \<Rightarrow> json" where
  "json_of_Description d =
     JObj [(''color'', JStr (DColor d)), (''amount'', JNum (FormatInt (Amount d)))]"

definition json_of_AnOpenTrade :: "AnOpenTrade \<Rightarrow> json" where
  "json_of_AnOpenTrade t =
     JObj [(''user'', JStr (TUser t)), (''timestamp'', JNum (FormatInt (Timestamp t))),
           (''want'', json_of_Description (Want t)),
           (''willing'', json_of_slice json_of_Description (Willing t))]"

definition json_of_AllTrades :: "AllTrades \<Rightarrow> json" where
  "json_of_AllTrades a =
     JObj [(''open_trades'', json_of_slice json_of_AnOpenTrade (OpenTrades a))]"

text \<open>\<^verbatim>\<open>json.Marshal\<close> for the values the file marshals.\<close>

definition Marshal_Bet :: "Bet \<Rightarrow> string" where
  "Marshal_Bet b = print_json (json_of_Bet b)"

definition Marshal_Description :: "Description \<Rightarrow> string" where
  "Marshal_Description d = print_json (json_of_Description d)"

definition Marshal_AnOpenTrade :: "AnOpenTrade \<Rightarrow> string" where
  "Marshal_AnOpenTrade t = print_json (json_of_AnOpenTrade t)"

definition Marshal_AllTrades :: "AllTrades \<Rightarrow> string" where
  "Marshal_AllTrades a = print_json (json_of_AllTrades a)"

definition Marshal_strings :: "string slice \<Rightarrow> string" where
  "Marshal_strings s = print_json (json_of_slice JStr s)"

subsection \<open>The ledger\<close>

datatype wr = Put string string | Del string

record ChaincodeStub =
  ledger :: "string \<rightharpoonup> string"
  issued :: "wr list"

datatype failure = Err string | RuntimePanic

type_synonym result = "(failure + string) \<times> ChaincodeStub"

definition GetState :: "ChaincodeStub \<Rightarrow> string \<Rightarrow> string" where
  "GetState stub k = (case ledger stub k of None \<Rightarrow> [] | Some v \<Rightarrow> v)"

definition PutState :: "ChaincodeStub \<Rightarrow> string \<Rightarrow> string \<Rightarrow> ChaincodeStub" where
  "PutState stub k v = stub\<lparr>ledger := (ledger stub)(k \<mapsto> v), issued := issued stub @ [Put k v]\<rparr>"

definition DelState :: "ChaincodeStub \<Rightarrow> string \<Rightarrow> ChaincodeStub" where
  "DelState stub k = stub\<lparr>ledger := (ledger stub)(k := None), issued := issued stub @ [Del k]\<rparr>"

definition betIndexStr :: string where
  "betIndexStr = ''_betindex''"

definition openTradesStr :: string where
  "openTradesStr = ''_opentrades''"

subsection \<open>Init, read, Delete, Write\<close>

definition Init :: "ChaincodeStub \<Rightarrow> string list \<Rightarrow> result" where
  "Init stub args =
     (if length args \<noteq> 1 then (Inl (Err ''Incorrect number of arguments. Expecting 1''), stub)
      else
        (case Atoi (args ! 0) of
           None \<Rightarrow> (Inl (Err ''Expecting integer value for asset holding''), stub)
         | Some Aval \<Rightarrow>
             let stub = PutState stub ''abc'' (Itoa Aval);
                 stub = PutState stub betIndexStr (Marshal_strings NilSlice);
                 stub = PutState stub openTradesStr (Marshal_AllTrades zero_AllTrades)
             in (Inr [], stub)))"


text \<open>
  The loop of \<^verbatim>\<open>Delete\<close> over \<^verbatim>\<open>range betIndex\<close>: the first entry equal
  to \<open>name\<close>, at position \<open>i\<close>, is cut out and the loop left.
\<close>

fun Delete_loop :: "string \<Rightarrow> string slice \<Rightarrow> int \<Rightarrow> string list \<Rightarrow> string slice" where
  "Delete_loop name betIndex i [] = betIndex"
| "Delete_loop name betIndex i (val # rest) =
     (if val = name then remove_at betIndex i
      else Delete_loop name betIndex (i + 1) rest)"

definition Delete :: "ChaincodeStub \<Rightarrow> string list \<Rightarrow> result" where
  "Delete stub args =
     (if length args \<noteq> 1 then (Inl (Err ''Incorrect number of arguments. Expecting 1''), stub)
      else
        let name = args ! 0;
            stub = DelState stub name;
            betsAsBytes = GetState stub betIndexStr;
            betIndex = Unmarshal_strings betsAsBytes NilSlice;
            betIndex = Delete_loop name betIndex 0 (elems betIndex);
            jsonAsBytes = Marshal_strings betIndex;
            stub = PutState stub betIndexStr jsonAsBytes
        in (Inr [], stub))"

definition Write :: "ChaincodeStub \<Rightarrow> string list \<Rightarrow> result" where
  "Write stub args =
     (if length args \<noteq> 2 then
        (Inl (Err ''Incorrect number of arguments. Expecting 2. name of the variable and value to set''),
         stub)
      else
        let name = args ! 0;
            val = args ! 1;
            stub = PutState stub name val
        in (Inr [], stub))"

subsection \<open>init\_bet and set\_user\<close>

definition init_bet :: "ChaincodeStub \<Rightarrow> string list \<Rightarrow> result" where
  \<open>init_bet stub args =
     (if length args \<noteq> 4 then (Inl (Err ''Incorrect number of arguments. Expecting 4''), stub)
      else if length (args ! 0) \<le> 0 then
        (Inl (Err ''1st argument must be a non-empty string''), stub)
      else if length (args ! 1) \<le> 0 then
        (Inl (Err ''2nd argument must be a non-empty string''), stub)
      else if length (args ! 2) \<le> 0 then
        (Inl (Err ''3rd argument must be a non-empty string''), stub)
      else if length (args ! 3) \<le> 0 then
        (Inl (Err ''4th argument must be a non-empty string''), stub)
      else
        let name = args ! 0;
            color = ToLower (args ! 1)
        in case Atoi (args ! 3) of
             None \<Rightarrow> (Inl (Err ''4th argument must be a numeric string, 1 or 2''), stub)
           | Some user \<Rightarrow>
               (case Atoi (args ! 2) of
                  None \<Rightarrow> (Inl (Err ''3rd argument must be a numeric string''), stub)
                | Some size' \<Rightarrow>
                    let betAsBytes = GetState stub name;
                        res = Unmarshal_Bet betAsBytes zero_Bet
                    in if Name res = name then (Inl (Err ''This bet arleady exists''), stub)
                       else
                         let str = ''{"name": "'' @ name @ ''", "color": "'' @ color @
                                   ''", "size": '' @ Itoa size' @ '', "user": "'' @ Itoa user @ ''"}'';
                             stub = PutState stub name str;
                             betsAsBytes = GetState stub betIndexStr;
                             betIndex = Unmarshal_strings betsAsBytes NilSlice;
                             betIndex = append1 betIndex name;
                             jsonAsBytes = Marshal_strings betIndex;
                             stub = PutState stub betIndexStr jsonAsBytes
                         in (Inr [], stub)))\<close>

definition set_user :: "ChaincodeStub \<Rightarrow> string list \<Rightarrow> result" where
  "set_user stub args =
     (if length args < 2 then (Inl (Err ''Incorrect number of arguments. Expecting 2''), stub)
      else
        let betAsBytes = GetState stub (args ! 0);
            res = Unmarshal_Bet betAsBytes zero_Bet;
            res = res\<lparr>User := args ! 1\<rparr>;
            jsonAsBytes = Marshal_Bet res;
            stub = PutState stub (args ! 0) jsonAsBytes
        in (Inr [], stub))"

subsection \<open>open\_trade\<close>

text \<open>
  The loop of \<^verbatim>\<open>open_trade\<close> over the offered pairs, from \<open>i = 3\<close>: the body
  reads \<^verbatim>\<open>args[i]\<close> and \<^verbatim>\<open>args[i + 1]\<close> and advances \<open>i\<close> once itself,
  the loop header once more. Each pair is written to the key \<^verbatim>\<open>_debug2\<close> before
  the next one is parsed.
\<close>

function open_trade_loop ::
  "ChaincodeStub \<Rightarrow> string list \<Rightarrow> AnOpenTrade \<Rightarrow> int \<Rightarrow> (failure + AnOpenTrade) \<times> ChaincodeStub" where
  "open_trade_loop stub args opn i =
     (if i < int (length args) then
        (if i < 0 \<or> \<not> i + 1 < int (length args) then (Inl RuntimePanic, stub)
         else
           (case Atoi (args ! nat (i + 1)) of
              None \<Rightarrow> (Inl (Err (''is not a numeric string '' @ args ! nat (i + 1))), stub)
            | Some will_size \<Rightarrow>
                let trade_away = \<lparr>DColor = args ! nat i, Amount = will_size\<rparr>;
                    jsonAsBytes = Marshal_Description trade_away;
                    stub = PutState stub ''_debug2'' jsonAsBytes;
                    opn = opn\<lparr>Willing := append1 (Willing opn) trade_away\<rparr>
                in open_trade_loop stub args opn (i + 1 + 1)))
      else (Inr opn, stub))"
  by pat_completeness auto
termination
  by (relation "measure (\<lambda>(stub, args, opn, i). nat (int (length args) - i))") auto

declare open_trade_loop.simps [simp del]

definition open_trade :: "ChaincodeStub \<Rightarrow> int64 \<Rightarrow> string list \<Rightarrow> result" where
  "open_trade stub now args =
     (if length args < 5 then
        (Inl (Err ''Incorrect number of arguments. Expecting like 5?''), stub)
      else if length args mod 2 = 0 then
        (Inl (Err ''Incorrect number of arguments. Expecting an odd number''), stub)
      else
        (case Atoi (args ! 2) of
           None \<Rightarrow> (Inl (Err ''3rd argument must be a numeric string''), stub)
         | Some size1 \<Rightarrow>
             let opn = \<lparr>TUser = args ! 0, Timestamp = now,
                        Want = \<lparr>DColor = args ! 1, Amount = size1\<rparr>, Willing = NilSlice\<rparr>;
                 jsonAsBytes = Marshal_AnOpenTrade opn;
                 stub = PutState stub ''_debug1'' jsonAsBytes
             in (case open_trade_loop stub args opn 3 of
                   (Inl e, stub) \<Rightarrow> (Inl e, stub)
                 | (Inr opn, stub) \<Rightarrow>
                     (let tradesAsBytes = GetState stub openTradesStr;
                          trades = Unmarshal_AllTrades tradesAsBytes zero_AllTrades;
                          trades = trades\<lparr>OpenTrades := append1 (OpenTrades trades) opn\<rparr>;
                          jsonAsBytes = Marshal_AllTrades trades;
                          stub = PutState stub openTradesStr jsonAsBytes
                      in (Inr [], stub)))))"

subsection \<open>findBet4Trade and perform\_trade\<close>

text \<open>
  The scan of \<^verbatim>\<open>findBet4Trade\<close> over the names of the index, in index order: the
  first record whose user and color equal the requested ones after lower-casing both
  sides, and whose size is the requested one.
\<close>

fun findBet4Trade_loop ::
  "ChaincodeStub \<Rightarrow> string \<Rightarrow> string \<Rightarrow> int64 \<Rightarrow> string list \<Rightarrow> failure + Bet" where
  "findBet4Trade_loop stub user color size' [] =
     Inl (Err ''Did not find bet to use in this trade'')"
| "findBet4Trade_loop stub user color size' (n # ns) =
     (let betAsBytes = GetState stub n;
          res = Unmarshal_Bet betAsBytes zero_Bet
      in if ToLower (User res) = ToLower user \<and> ToLower (Color res) = ToLower color
            \<and> Size res = size'
         then Inr res
         else findBet4Trade_loop stub user color size' ns)"

definition findBet4Trade :: "ChaincodeStub \<Rightarrow> string \<Rightarrow> string \<Rightarrow> int64 \<Rightarrow> failure + Bet" where
  "findBet4Trade stub user color size' =
     (let betsAsBytes = GetState stub betIndexStr;
          betIndex = Unmarshal_strings betsAsBytes NilSlice
      in findBet4Trade_loop stub user color size' (elems betIndex))"

text \<open>
  The loop of \<^verbatim>\<open>perform_trade\<close>. \<^verbatim>\<open>for i := range trades.OpenTrades\<close>
  fixes the number \<open>n\<close> of rounds when the loop starts, while the body indexes the
  slice as it is now: a round after a removal can index past its end, which is a
  run-time panic. The results of the two \<^verbatim>\<open>set_user\<close> calls are discarded, as in
  the source.
\<close>

function perform_trade_loop ::
  "ChaincodeStub \<Rightarrow> string list \<Rightarrow> int64 \<Rightarrow> int64 \<Rightarrow> AllTrades \<Rightarrow> int \<Rightarrow> int \<Rightarrow> result" where
  "perform_trade_loop stub args timestamp size' trades n i =
     (if i < n then
        (case at (OpenTrades trades) i of
           None \<Rightarrow> (Inl RuntimePanic, stub)
         | Some tr \<Rightarrow>
             if Timestamp tr = timestamp then
               (let betAsBytes = GetState stub (args ! 2);
                    closersBet = Unmarshal_Bet betAsBytes zero_Bet
                in if Color closersBet \<noteq> DColor (Want tr) \<or> Size closersBet \<noteq> Amount (Want tr)
                   then (Inl (Err ''bet in input does not meet trade requriements''), stub)
                   else
                     (case findBet4Trade stub (TUser tr) (args ! 4) size' of
                        Inr bet \<Rightarrow>
                          let stub = snd (set_user stub [args ! 2, TUser tr]);
                              stub = snd (set_user stub [Name bet, args ! 1]);
                              trades = trades\<lparr>OpenTrades := remove_at (OpenTrades trades) i\<rparr>;
                              jsonAsBytes = Marshal_AllTrades trades;
                              stub = PutState stub openTradesStr jsonAsBytes
                          in perform_trade_loop stub args timestamp size' trades n (i + 1)
                      | Inl e \<Rightarrow> perform_trade_loop stub args timestamp size' trades n (i + 1)))
             else perform_trade_loop stub args timestamp size' trades n (i + 1))
      else (Inr [], stub))"
  by pat_completeness auto
termination
  by (relation "measure (\<lambda>(stub, args, timestamp, size', trades, n, i). nat (n - i))") auto

declare perform_trade_loop.simps [simp del]

definition perform_trade :: "ChaincodeStub \<Rightarrow> string list \<Rightarrow> result" where
  "perform_trade stub args =
     (if length args < 6 then (Inl (Err ''Incorrect number of arguments. Expecting 6''), stub)
      else
        (case ParseInt (args ! 0) of
           None \<Rightarrow> (Inl (Err ''1st argument must be a numeric string''), stub)
         | Some timestamp \<Rightarrow>
             (case Atoi (args ! 5) of
                None \<Rightarrow> (Inl (Err ''6th argument must be a numeric string''), stub)
              | Some size' \<Rightarrow>
                  let tradesAsBytes = GetState stub openTradesStr;
                      trades = Unmarshal_AllTrades tradesAsBytes zero_AllTrades
                  in perform_trade_loop stub args timestamp size' trades
                       (len (OpenTrades trades)) 0)))"

subsection \<open>remove\_trade\<close>

fun remove_trade_loop ::
  "ChaincodeStub \<Rightarrow> int64 \<Rightarrow> AllTrades \<Rightarrow> int \<Rightarrow> AnOpenTrade list \<Rightarrow> ChaincodeStub" where
  "remove_trade_loop stub timestamp trades i [] = stub"
| "remove_trade_loop stub timestamp trades i (tr # rest) =
     (if Timestamp tr = timestamp then
        let trades = trades\<lparr>OpenTrades := remove_at (OpenTrades trades) i\<rparr>;
            jsonAsBytes = Marshal_AllTrades trades
        in PutState stub openTradesStr jsonAsBytes
      else remove_trade_loop stub timestamp trades (i + 1) rest)"

definition remove_trade :: "ChaincodeStub \<Rightarrow> string list \<Rightarrow> result" where
  "remove_trade stub args =
     (if length args < 1 then (Inl (Err ''Incorrect number of arguments. Expecting 1''), stub)
      else
        (case ParseInt (args ! 0) of
           None \<Rightarrow> (Inl (Err ''1st argument must be a numeric string''), stub)
         | Some timestamp \<Rightarrow>
             let tradesAsBytes = GetState stub openTradesStr;
                 trades = Unmarshal_AllTrades tradesAsBytes zero_AllTrades
             in (Inr [], remove_trade_loop stub timestamp trades 0 (elems (OpenTrades trades)))))"

subsection \<open>cleanTrades\<close>

text \<open>
  The inner loop of \<^verbatim>\<open>cleanTrades\<close> over the options of one trade, on the
  \<^verbatim>\<open>Willing\<close> slice of that trade and the flag \<^verbatim>\<open>didWork\<close>. An option
  that \<^verbatim>\<open>findBet4Trade\<close> does not resolve is cut out in place and \<open>x\<close> stepped
  back, so that the \<^verbatim>\<open>x++\<close> that follows lands on the option that moved up; the
  loop ends when \<open>x\<close> reaches the length as it is now. \<open>None\<close> is an index out of
  range.
\<close>

function cleanTrades_options ::
  "ChaincodeStub \<Rightarrow> string \<Rightarrow> Description slice \<Rightarrow> int \<Rightarrow> bool \<Rightarrow> (Description slice \<times> bool) option" where
  "cleanTrades_options stub user willing x didWork =
     (if x < len willing then
        (case at willing x of
           None \<Rightarrow> None
         | Some d \<Rightarrow>
             (case findBet4Trade stub user (DColor d) (Amount d) of
                Inl e \<Rightarrow>
                  let didWork = True;
                      willing = remove_at willing x;
                      x = x - 1;
                      x = x + 1
                  in if x \<ge> len willing then Some (willing, didWork)
                     else cleanTrades_options stub user willing x didWork
              | Inr b \<Rightarrow>
                  let x = x + 1
                  in if x \<ge> len willing then Some (willing, didWork)
                     else cleanTrades_options stub user willing x didWork))
      else Some (willing, didWork))"
  by pat_completeness auto
termination
  by (relation "measure (\<lambda>(stub, user, willing, x, didWork). nat (len willing - x))")
     (auto simp: at_def len_def remove_at_def split: if_splits)

declare cleanTrades_options.simps [simp del]

text \<open>
  The outer loop over the trades: the options of trade \<open>i\<close> are cleaned in place; a
  trade left without options is cut out and \<open>i\<close> stepped back.
\<close>

function cleanTrades_loop ::
  "ChaincodeStub \<Rightarrow> AnOpenTrade slice \<Rightarrow> int \<Rightarrow> bool \<Rightarrow> (AnOpenTrade slice \<times> bool) option" where
  "cleanTrades_loop stub trades i didWork =
     (if i < len trades then
        (case at trades i of
           None \<Rightarrow> None
         | Some tr \<Rightarrow>
             (case cleanTrades_options stub (TUser tr) (Willing tr) 0 didWork of
                None \<Rightarrow> None
              | Some (willing, didWork) \<Rightarrow>
                  let trades = set_at trades i (tr\<lparr>Willing := willing\<rparr>)
                  in if len willing = 0 then
                       let didWork = True;
                           trades = remove_at trades i;
                           i = i - 1;
                           i = i + 1
                       in if i \<ge> len trades then Some (trades, didWork)
                          else cleanTrades_loop stub trades i didWork
                     else
                       let i = i + 1
                       in if i \<ge> len trades then Some (trades, didWork)
                          else cleanTrades_loop stub trades i didWork))
      else Some (trades, didWork))"
  by pat_completeness auto
termination
  by (relation "measure (\<lambda>(stub, trades, i, didWork). nat (len trades - i))")
     (auto simp: at_def len_def remove_at_def set_at_def split: if_splits)

declare cleanTrades_loop.simps [simp del]

definition cleanTrades :: "ChaincodeStub \<Rightarrow> failure option \<times> ChaincodeStub" where
  "cleanTrades stub =
     (let tradesAsBytes = GetState stub openTradesStr;
          trades = Unmarshal_AllTrades tradesAsBytes zero_AllTrades
      in case cleanTrades_loop stub (OpenTrades trades) 0 False of
           None \<Rightarrow> (Some RuntimePanic, stub)
         | Some (open_trades, didWork) \<Rightarrow>
             if didWork then
               let trades = trades\<lparr>OpenTrades := open_trades\<rparr>;
                   jsonAsBytes = Marshal_AllTrades trades;
                   stub = PutState stub openTradesStr jsonAsBytes
               in (None, stub)
             else (None, stub))"

subsection \<open>The dispatchers\<close>

text \<open>
  \<^verbatim>\<open>res, err := op(stub, args); cleanTrades(stub); return res, err\<close>: the
  reconciler runs whatever the operation returned, and its own result is dropped.
\<close>

definition and_cleanTrades :: "result \<Rightarrow> result" where
  "and_cleanTrades r =
     (case r of
        (Inl RuntimePanic, stub) \<Rightarrow> (Inl RuntimePanic, stub)
      | (res, stub) \<Rightarrow>
          (case cleanTrades stub of
             (Some RuntimePanic, stub') \<Rightarrow> (Inl RuntimePanic, stub')
           | (e, stub') \<Rightarrow> (res, stub')))"

definition Invoke :: "ChaincodeStub \<Rightarrow> int64 \<Rightarrow> string \<Rightarrow> string list \<Rightarrow> result" where
  "Invoke stub now fn args =
     (if fn = ''init'' then Init stub args
      else if fn = ''delete'' then and_cleanTrades (Delete stub args)
      else if fn = ''write'' then Write stub args
      else if fn = ''init_bet'' then init_bet stub args
      else if fn = ''set_user'' then and_cleanTrades (set_user stub args)
      else if fn = ''open_trade'' then open_trade stub now args
      else if fn = ''perform_trade'' then and_cleanTrades (perform_trade stub args)
      else if fn = ''remove_trade'' then remove_trade stub args
      else (Inl (Err ''Received unknown function invocation''), stub))"

definition Run :: "ChaincodeStub \<Rightarrow> int64 \<Rightarrow> string \<Rightarrow> string list \<Rightarrow> result" where
  "Run stub now fn args = Invoke stub now fn args"


subsection \<open>Notions used in the statements\<close>

text \<open>The ledger of a chaincode that has just been deployed: no key, no write.\<close>

definition fresh_stub :: ChaincodeStub where
  "fresh_stub = \<lparr>ledger = Map.empty, issued = []\<rparr>"

text \<open>The order book and the bet index as the operations read them from the ledger.\<close>

definition order_book :: "ChaincodeStub \<Rightarrow> AnOpenTrade slice" where
  "order_book stub = OpenTrades (Unmarshal_AllTrades (GetState stub openTradesStr) zero_AllTrades)"

definition bet_index :: "ChaincodeStub \<Rightarrow> string slice" where
  "bet_index stub = Unmarshal_strings (GetState stub betIndexStr) NilSlice"

text \<open>
  An offered description resolves for a user when \<^verbatim>\<open>findBet4Trade\<close> returns a bet
  for it.
\<close>

definition resolves :: "ChaincodeStub \<Rightarrow> string \<Rightarrow> Description \<Rightarrow> bool" where
  "resolves stub user d =
     (case findBet4Trade stub user (DColor d) (Amount d) of Inl e \<Rightarrow> False | Inr b \<Rightarrow> True)"

text \<open>
  Stable filtering of a slice, and what reconciliation is meant to compute: every trade
  keeps the options that resolve for its creator, and the trades that keep an option
  stay, in their order. A trade is untouched when it has an option and all its options
  resolve.
\<close>

definition retain :: "('a \<Rightarrow> bool) \<Rightarrow> 'a slice \<Rightarrow> 'a slice" where
  "retain P s = (case s of NilSlice \<Rightarrow> NilSlice | Slice xs \<Rightarrow> Slice (filter P xs))"

definition clean_trade :: "ChaincodeStub \<Rightarrow> AnOpenTrade \<Rightarrow> AnOpenTrade" where
  "clean_trade stub tr = tr\<lparr>Willing := retain (resolves stub (TUser tr)) (Willing tr)\<rparr>"

definition has_options :: "AnOpenTrade \<Rightarrow> bool" where
  "has_options tr = (elems (Willing tr) \<noteq> [])"

definition untouched :: "ChaincodeStub \<Rightarrow> AnOpenTrade \<Rightarrow> bool" where
  "untouched stub tr =
     (elems (Willing tr) \<noteq> [] \<and> list_all (resolves stub (TUser tr)) (elems (Willing tr)))"

definition reconciled :: "ChaincodeStub \<Rightarrow> AnOpenTrade slice \<Rightarrow> AnOpenTrade slice" where
  "reconciled stub trades = retain has_options
     (case trades of NilSlice \<Rightarrow> NilSlice | Slice ts \<Rightarrow> Slice (map (clean_trade stub) ts))"

text \<open>
  Two ledgers built by the operations themselves. In the first, bet \<open>A\<close> (blue, 10) of
  owner 1 and bet \<open>B\<close> (red, 5) of owner 2 exist, and owner 2 has opened at time
  \<open>now\<close> a trade that wants (\<open>wanted\<close>, 10) and offers (red, 5). In the second, owner
  2 holds bet \<open>B\<close> (red, 5) and has offered (red, 5) and (green, 7) in a first trade,
  and owner 3, who holds nothing, has offered (red, 5) in a second one.
\<close>

definition trading_ledger :: "int64 \<Rightarrow> string \<Rightarrow> ChaincodeStub" where
  "trading_ledger now wanted =
     (let stub = snd (Invoke fresh_stub now ''init'' [''0'']);
          stub = snd (Invoke stub now ''init_bet'' [''A'', ''blue'', ''10'', ''1'']);
          stub = snd (Invoke stub now ''init_bet'' [''B'', ''red'', ''5'', ''2'']);
          stub = snd (Invoke stub now ''open_trade'' [''2'', wanted, ''10'', ''red'', ''5''])
      in stub)"

definition stale_ledger :: ChaincodeStub where
  "stale_ledger =
     (let stub = snd (Invoke fresh_stub 0 ''init'' [''0'']);
          stub = snd (Invoke stub 0 ''init_bet'' [''B'', ''red'', ''5'', ''2'']);
          stub = snd (Invoke stub 100 ''open_trade''
                        [''2'', ''blue'', ''10'', ''red'', ''5'', ''green'', ''7'']);
          stub = snd (Invoke stub 200 ''open_trade'' [''3'', ''blue'', ''10'', ''red'', ''5''])
      in stub)"


definition crafted_ledger :: ChaincodeStub where
  \<open>crafted_ledger =
     (let stub = snd (Invoke fresh_stub 0 ''init'' [''0'']);
          stub = snd (Invoke stub 0 ''init_bet''
                   [''_opentrades'',
                    ''red", "open_trades": [{"user": "2", "timestamp": 1, "want": {"color": "blue", "amount": 10}, "willing": [{"color": "red", "amount": 5}]}, {"user": "3", "timestamp": 2, "want": {"color": "blue", "amount": 10}, "willing": [{"color": "green", "amount": 1}]}], "x": "'',
                    ''5'', ''2''])
      in stub)\<close>






text \<open>
  For the proofs about the JSON reader: the number literals the lexer takes whole, the
  texts that end a number, the values whose numbers are such literals, and the tokens of
  a value.
\<close>

definition numlit :: "string \<Rightarrow> bool" where
  "numlit n = (n \<noteq> [] \<and> (hd n = CHR ''-'' \<or> is_digit (hd n)) \<and> list_all is_numch (tl n) \<and> valid_number n)"

definition sep :: "string \<Rightarrow> bool" where
  "sep rest = (case rest of [] \<Rightarrow> True | c # cs \<Rightarrow> \<not> is_numch c)"

fun wf_json :: "json \<Rightarrow> bool" where
  "wf_json (JNum n) = numlit n"
| "wf_json (JArr xs) = list_all wf_json xs"
| "wf_json (JObj ms) = list_all (\<lambda>m. wf_json (snd m)) ms"
| "wf_json _ = True"

fun sep_toks :: "token list list \<Rightarrow> token list" where
  "sep_toks [] = []"
| "sep_toks [x] = x"
| "sep_toks (x # y # ys) = x @ TComma # sep_toks (y # ys)"

fun toks :: "json \<Rightarrow> token list" where
  "toks JNull = [TNull]"
| "toks (JBool b) = [if b then TTrue else TFalse]"
| "toks (JNum n) = [TNum n]"
| "toks (JStr s) = [TStr s]"
| "toks (JArr xs) = TLBrack # sep_toks (map toks xs) @ [TRBrack]"
| "toks (JObj ms) = TLBrace # sep_toks (map (\<lambda>m. TStr (fst m) # TColon # toks (snd m)) ms) @ [TRBrace]"

definition emits :: "token list \<Rightarrow> token list option \<Rightarrow> token list option" where
  "emits ts r = (case r of None \<Rightarrow> None | Some ts' \<Rightarrow> Some (ts @ ts'))"

definition value_mode :: "pmode \<Rightarrow> bool" where
  "value_mode m = (m = ExpValue \<or> m = ExpValueOrClose)"

text \<open>
  The ledgers of the swap scenario: after the two creations, after the order of owner 2
  placed at time \<open>now\<close>, and after the swap.
\<close>

definition stocked_ledger :: ChaincodeStub where
  "stocked_ledger =
     (let stub = snd (Init fresh_stub [''0'']);
          stub = snd (init_bet stub [''A'', ''blue'', ''10'', ''1'']);
          stub = snd (init_bet stub [''B'', ''red'', ''5'', ''2''])
      in stub)"

definition the_order :: "int64 \<Rightarrow> AnOpenTrade" where
  "the_order now = \<lparr>TUser = ''2'', Timestamp = now, Want = \<lparr>DColor = ''blue'', Amount = 10\<rparr>,
                     Willing = Slice [\<lparr>DColor = ''red'', Amount = 5\<rparr>]\<rparr>"

definition ordered_ledger :: "int64 \<Rightarrow> ChaincodeStub" where
  "ordered_ledger now =
     PutState
       (PutState
          (PutState stocked_ledger ''_debug1''
             (Marshal_AnOpenTrade ((the_order now)\<lparr>Willing := NilSlice\<rparr>)))
          ''_debug2'' (Marshal_Description \<lparr>DColor = ''red'', Amount = 5\<rparr>))
       openTradesStr (Marshal_AllTrades \<lparr>OpenTrades = Slice [the_order now]\<rparr>)"

definition swapped_ledger :: "int64 \<Rightarrow> ChaincodeStub" where
  "swapped_ledger now =
     PutState
       (PutState
          (PutState (ordered_ledger now) ''A''
             (Marshal_Bet \<lparr>Name = ''A'', Color = ''blue'', Size = 10, User = ''2''\<rparr>))
          ''B'' (Marshal_Bet \<lparr>Name = ''B'', Color = ''red'', Size = 5, User = ''1''\<rparr>))
       openTradesStr (Marshal_AllTrades \<lparr>OpenTrades = Slice []\<rparr>)"

section \<open>Properties\<close>

subsection \<open>Reading and writing the ledger\<close>

lemma GetState_PutState:
  "GetState (PutState stub k v) k' = (if k' = k then v else GetState stub k')"
  by (simp add: GetState_def PutState_def)

lemma GetState_DelState:
  "GetState (DelState stub k) k' = (if k' = k then [] else GetState stub k')"
  by (simp add: GetState_def DelState_def)

lemma issued_PutState: "issued (PutState stub k v) = issued stub @ [Put k v]"
  by (simp add: PutState_def)

lemma issued_DelState: "issued (DelState stub k) = issued stub @ [Del k]"
  by (simp add: DelState_def)


lemma ledger_DelState: "ledger (DelState stub k) = (ledger stub)(k := None)"
  by (simp add: DelState_def)


subsection \<open>strconv: a printed integer reads back\<close>

lemma of_char_char_of_int: "0 \<le> n \<Longrightarrow> n < 256 \<Longrightarrow> (of_char (char_of (n::int)) :: int) = n"
  by (simp add: take_bit_int_eq_self)

lemma digits_of_nonempty: "digits_of n \<noteq> []"
  by (subst digits_of.simps) simp

lemma is_digit_char_of: "0 \<le> d \<Longrightarrow> d < 10 \<Longrightarrow> is_digit (char_of (48 + d :: int))"
  by (simp add: is_digit_def of_char_char_of_int)

lemma digit_val_char_of: "0 \<le> d \<Longrightarrow> d < 10 \<Longrightarrow> digit_val (char_of (48 + d :: int)) = d"
  by (simp add: digit_val_def of_char_char_of_int)

lemma digits_of_digits: "0 \<le> n \<Longrightarrow> list_all is_digit (digits_of n)"
proof (induction n rule: digits_of.induct)
  case (1 n)
  show ?case
  proof (cases "n < 10")
    case True
    with 1(2) show ?thesis by (subst digits_of.simps) (simp add: is_digit_char_of)
  next
    case False
    with 1 have "list_all is_digit (digits_of (n div 10))" by simp
    with False show ?thesis
      by (subst digits_of.simps) (simp add: is_digit_char_of)
  qed
qed

lemma digits_val_snoc: "digits_val (ds @ [c]) = digits_val ds * 10 + digit_val c"
  by (simp add: digits_val_def)

lemma digits_val_digits_of: "0 \<le> n \<Longrightarrow> digits_val (digits_of n) = n"
proof (induction n rule: digits_of.induct)
  case (1 n)
  show ?case
  proof (cases "n < 10")
    case True
    with 1(2) show ?thesis
      by (subst digits_of.simps) (simp add: digits_val_def digit_val_char_of)
  next
    case False
    with 1 have "digits_val (digits_of (n div 10)) = n div 10" by simp
    with False show ?thesis
      by (subst digits_of.simps) (simp add: digits_val_snoc digit_val_char_of)
  qed
qed

lemma digits_of_hd: "0 \<le> n \<Longrightarrow> hd (digits_of n) = CHR ''0'' \<Longrightarrow> n = 0"
proof (induction n rule: digits_of.induct)
  case (1 n)
  show ?case
  proof (cases "n < 10")
    case True
    from 1(3) True have "char_of (48 + n) = CHR ''0''"
      by (subst (asm) digits_of.simps) simp
    then have "(of_char (char_of (48 + n)) :: int) = of_char (CHR ''0'')" by simp
    with True 1(2) show ?thesis by (simp add: of_char_char_of_int)
  next
    case False
    from 1(3) False have "hd (digits_of (n div 10)) = CHR ''0''"
      by (subst (asm) digits_of.simps) (simp add: digits_of_nonempty)
    with 1 False have "n div 10 = 0" by simp
    with False 1(2) show ?thesis by simp
  qed
qed

lemma digits_of_0: "digits_of 0 = ''0''"
  by code_simp

lemma sint_range: "- (2 ^ 63) \<le> sint (w :: int64) \<and> sint w < 2 ^ 63"
  using sint_ge [of w] sint_lt [of w] by simp

lemma ParseInt_FormatInt: "ParseInt (FormatInt w) = Some w"
proof (cases "sint w < 0")
  case True
  then have n: "0 \<le> - sint w" by simp
  have ne: "digits_of (- sint w) \<noteq> []" by (rule digits_of_nonempty)
  show ?thesis
    using True sint_range [of w]
    by (simp add: ParseInt_def FormatInt_def Let_def ne digits_of_digits [OF n]
        digits_val_digits_of [OF n])
next
  case False
  then have n: "0 \<le> sint w" by simp
  have ne: "digits_of (sint w) \<noteq> []" by (rule digits_of_nonempty)
  have dg: "list_all is_digit (digits_of (sint w))" by (rule digits_of_digits [OF n])
  then have "is_digit (hd (digits_of (sint w)))" using ne by (cases "digits_of (sint w)") auto
  then have h: "hd (digits_of (sint w)) \<noteq> CHR ''-''" "hd (digits_of (sint w)) \<noteq> CHR ''+''"
    by (auto simp: is_digit_def)
  show ?thesis
    using False sint_range [of w]
    by (simp add: ParseInt_def FormatInt_def Let_def ne dg h digits_val_digits_of [OF n])
qed

subsection \<open>A quoted string reads back\<close>

lemma hex_val_hexdigit: "0 \<le> n \<Longrightarrow> n < 16 \<Longrightarrow> hex_val (hexdigit n) = Some n"
  by (auto simp: hex_val_def hexdigit_def of_char_char_of_int Let_def)

lemma of_char_int_lt: "(of_char c :: int) < 256"
proof -
  have "(of_char c :: nat) < 256" by (rule nat_of_char_less_256)
  then have "int (of_char c) < 256" by simp
  then show ?thesis by (simp add: of_char_def)
qed

lemma of_char_int_ge: "0 \<le> (of_char c :: int)"
  by (simp add: of_char_def)

lemma getu4_00:
  assumes "0 \<le> a" "a < 16" "0 \<le> b" "b < 16"
  shows "getu4 (CHR 0x5C # CHR ''u'' # CHR ''0'' # CHR ''0'' # hexdigit a # hexdigit b # X)
         = Some (a * 16 + b)"
  using assms by (simp add: hex_val_hexdigit) (simp add: hex_val_def)

lemma unquote_escape_u:
  assumes "(of_char c :: int) < 0x80"
  shows "unquote (CHR 0x5C # CHR ''u'' # CHR ''0'' # CHR ''0'' #
            hexdigit (of_char c div 16) # hexdigit (of_char c mod 16) # X)
         = prepend [c] (unquote X)"
proof -
  let ?n = "of_char c :: int"
  have b: "0 \<le> ?n" "?n < 256" by (rule of_char_int_ge, rule of_char_int_lt)
  have g: "getu4 (CHR 0x5C # CHR ''u'' # CHR ''0'' # CHR ''0'' #
            hexdigit (?n div 16) # hexdigit (?n mod 16) # X) = Some ?n"
    using b by (subst getu4_00) auto
  have e: "EncodeRune ?n = [c]" using assms by (simp add: EncodeRune_def)
  have s: "\<not> IsSurrogate ?n" using b by (simp add: IsSurrogate_def)
  have "string_unit (CHR 0x5C) (CHR ''u'' # CHR ''0'' # CHR ''0'' #
            hexdigit (?n div 16) # hexdigit (?n mod 16) # X) = Some ([c], X)"
    unfolding string_unit_def using g e s by simp
  then show ?thesis by simp
qed

lemma unquote_quote_char: "unquote (quote_char c @ X) = prepend [c] (unquote X)"
proof -
  let ?n = "of_char c :: int"
  show ?thesis
  proof (cases "c = CHR 0x5C \<or> c = CHR 0x22")
    case True
    then show ?thesis
      by (auto simp: quote_char_def string_unit_def simple_escape_def)
  next
    case esc: False
    show ?thesis
    proof (cases "c = CHR 0x0A \<or> c = CHR 0x0D \<or> c = CHR 0x09")
      case True
      then show ?thesis
        by (auto simp: quote_char_def string_unit_def simple_escape_def)
    next
      case short: False
      show ?thesis
      proof (cases "?n < 0x20 \<or> c = CHR ''<'' \<or> c = CHR ''>'' \<or> c = CHR ''&''")
        case True
        then have "?n < 0x80" by auto
        from unquote_escape_u [OF this] True esc short show ?thesis
          by (simp add: quote_char_def)
      next
        case False
        with esc short show ?thesis
          by (simp add: quote_char_def string_unit_def)
      qed
    qed
  qed
qed

lemma unquote_quoted:
  "unquote (concat (map quote_char s) @ CHR 0x22 # rest) = Some (s, rest)"
  by (induction s) (simp_all add: unquote_quote_char prepend_def)

lemma lex_quote:
  "lex (quote s @ rest) = emit (TStr s) (lex rest)"
  by (simp add: lex.simps(2) quote_def unquote_quoted isSpace_def)

subsection \<open>A printed integer is a number literal\<close>

lemma list_all_digit_numch: "list_all is_digit ds \<Longrightarrow> list_all is_numch ds"
  by (induction ds) (auto simp: is_numch_def)

lemma dropWhile_all: "list_all P xs \<Longrightarrow> dropWhile P xs = []"
  by (induction xs) auto

lemma valid_number_digits:
  assumes "list_all is_digit ds" "ds \<noteq> []" "hd ds = CHR ''0'' \<longrightarrow> tl ds = []"
  shows "valid_number ds" "valid_number (CHR ''-'' # ds)"
proof -
  from assms obtain d t where ds: "ds = d # t" by (cases ds) auto
  with assms have d: "is_digit d" and t: "list_all is_digit t" by auto
  from d have nm: "d \<noteq> CHR ''-''" by (auto simp: is_digit_def)
  have v: "valid_frac (dropWhile is_digit t)" using t by (simp add: dropWhile_all valid_frac_def)
  have v0: "d = CHR ''0'' \<Longrightarrow> valid_frac t" using assms ds by (simp add: valid_frac_def)
  show "valid_number ds" using ds nm d v v0 by (simp add: valid_number_def)
  show "valid_number (CHR ''-'' # ds)" using ds nm d v v0 by (simp add: valid_number_def)
qed

lemma digits_of_canonical:
  assumes "0 \<le> n"
  shows "hd (digits_of n) = CHR ''0'' \<longrightarrow> tl (digits_of n) = []"
proof
  assume "hd (digits_of n) = CHR ''0''"
  with assms have "n = 0" by (rule digits_of_hd)
  then show "tl (digits_of n) = []" by (simp add: digits_of_0)
qed

lemma numlit_FormatInt: "numlit (FormatInt w)"
proof (cases "sint w < 0")
  case True
  then have n: "0 \<le> - sint w" by simp
  note d = digits_of_digits [OF n] and ne = digits_of_nonempty [of "- sint w"]
  from valid_number_digits(2) [OF d ne digits_of_canonical [OF n]] True
    list_all_digit_numch [OF d]
  show ?thesis by (simp add: numlit_def FormatInt_def)
next
  case False
  then have n: "0 \<le> sint w" by simp
  note d = digits_of_digits [OF n] and ne = digits_of_nonempty [of "sint w"]
  from d ne have h: "is_digit (hd (digits_of (sint w)))" "list_all is_digit (tl (digits_of (sint w)))"
    by (cases "digits_of (sint w)", auto)+
  from valid_number_digits(1) [OF d ne digits_of_canonical [OF n]] False h
    list_all_digit_numch [OF h(2)]
  show ?thesis by (simp add: numlit_def FormatInt_def ne)
qed

lemma takeWhile_sep: "list_all P xs \<Longrightarrow> (case rest of [] \<Rightarrow> True | c # cs \<Rightarrow> \<not> P c) \<Longrightarrow>
  takeWhile P (xs @ rest) = xs \<and> dropWhile P (xs @ rest) = rest"
  by (induction xs) (auto split: list.splits)

lemma lex_numlit:
  assumes "numlit n" "sep rest"
  shows "lex (n @ rest) = emit (TNum n) (lex rest)"
proof -
  from assms(1) obtain c t where n: "n = c # t" by (cases n) (auto simp: numlit_def)
  with assms(1) have c: "c = CHR ''-'' \<or> is_digit c" and t: "list_all is_numch t"
    and v: "valid_number (c # t)" by (auto simp: numlit_def)
  from takeWhile_sep [OF t, of rest] assms(2)
  have tw: "takeWhile is_numch (t @ rest) = t" "dropWhile is_numch (t @ rest) = rest"
    by (auto simp: sep_def)
  from c have "\<not> isSpace c" "c \<noteq> CHR ''{''" "c \<noteq> CHR ''}''" "c \<noteq> CHR ''[''" "c \<noteq> CHR '']''"
    "c \<noteq> CHR '':''" "c \<noteq> CHR '',''" "c \<noteq> CHR 0x22"
    by (auto simp: is_digit_def isSpace_def)
  with c v tw show ?thesis by (simp add: n lex.simps(2))
qed

subsection \<open>The printed text of a value reads back\<close>

lemma emits_simps:
  "emits [] r = r" "emit t (emits ts r) = emits (t # ts) r" "emits ts (emits us r) = emits (ts @ us) r"
  "emit t r = emits [t] r"
  by (auto simp: emits_def emit_def split: option.splits)

lemma lex_punct:
  "lex (CHR '']'' # rest) = emit TRBrack (lex rest)"
  "lex (CHR ''}'' # rest) = emit TRBrace (lex rest)"
  "lex (CHR ''['' # rest) = emit TLBrack (lex rest)"
  "lex (CHR ''{'' # rest) = emit TLBrace (lex rest)"
  "lex (CHR '','' # rest) = emit TComma (lex rest)"
  "lex (CHR '':'' # rest) = emit TColon (lex rest)"
  "lex (''null'' @ rest) = emit TNull (lex rest)"
  "lex (''true'' @ rest) = emit TTrue (lex rest)"
  "lex (''false'' @ rest) = emit TFalse (lex rest)"
  by (simp_all add: lex.simps(2) isSpace_def is_digit_def)

lemma sep_punct: "sep (CHR '']'' # rest)" "sep (CHR ''}'' # rest)" "sep (CHR '','' # rest)"
  by (simp_all add: sep_def is_numch_def is_digit_def)

lemma lex_commas:
  assumes "\<And>x rest. x \<in> set xs \<Longrightarrow> sep rest \<Longrightarrow> lex (pr x @ rest) = emits (tk x) (lex rest)"
    and "sep (c # rest)"
  shows "lex (commas (map pr xs) @ c # rest) = emits (sep_toks (map tk xs)) (lex (c # rest))"
  using assms
proof (induction xs rule: induct_list012)
  case 1
  then show ?case by (simp add: emits_simps)
next
  case (2 x)
  then show ?case by simp
next
  case (3 x y zs)
  have "lex (commas (map pr (y # zs)) @ c # rest) = emits (sep_toks (map tk (y # zs))) (lex (c # rest))"
    using 3(2) [OF _ "3.prems"(2)] "3.prems" by simp
  then show ?case using "3.prems"(1) [of x "CHR '','' # commas (map pr (y # zs)) @ c # rest"]
    by (simp add: sep_punct lex_punct emits_simps)
qed

lemma lex_print_json:
  "wf_json j \<Longrightarrow> sep rest \<Longrightarrow> lex (print_json j @ rest) = emits (toks j) (lex rest)"
proof (induction j arbitrary: rest)
  case JNull
  then show ?case by (simp add: lex_punct emits_simps del: append.simps)
next
  case (JBool b)
  then show ?case by (simp add: lex_punct emits_simps del: append.simps)
next
  case (JNum n)
  then show ?case by (simp add: lex_numlit emits_simps)
next
  case (JStr s)
  then show ?case by (simp add: lex_quote emits_simps)
next
  case (JArr xs)
  have "lex (commas (map print_json xs) @ CHR '']'' # rest)
        = emits (sep_toks (map toks xs)) (lex (CHR '']'' # rest))"
  proof (rule lex_commas)
    fix x r assume "x \<in> set xs" "sep r"
    with JArr show "lex (print_json x @ r) = emits (toks x) (lex r)"
      by (simp add: list_all_iff)
  qed (rule sep_punct)
  then show ?case by (simp add: lex_punct emits_simps)
next
  case (JObj ms)
  let ?pr = "\<lambda>m. quote (fst m) @ CHR '':'' # print_json (snd m)"
  let ?tk = "\<lambda>m. TStr (fst m) # TColon # toks (snd m)"
  have "lex (commas (map ?pr ms) @ CHR ''}'' # rest)
        = emits (sep_toks (map ?tk ms)) (lex (CHR ''}'' # rest))"
  proof (rule lex_commas)
    fix m r assume m: "m \<in> set ms" "sep r"
    have "snd m \<in> Basic_BNFs.snds m" by (cases m) simp
    with JObj m have "lex (print_json (snd m) @ r) = emits (toks (snd m)) (lex r)"
      by (simp add: list_all_iff)
    then show "lex (?pr m @ r) = emits (?tk m) (lex r)"
      by (simp add: lex_quote lex_punct emits_simps)
  qed (rule sep_punct)
  then show ?case by (simp add: lex_punct emits_simps)
qed

lemma prun_None: "prun None ts = None"
  by (cases ts) simp_all

lemma prun_append: "prun st (ts @ us) = prun (prun st ts) us"
proof (induction ts arbitrary: st)
  case Nil
  then show ?case by simp
next
  case (Cons t ts)
  then show ?case by (cases st) (auto simp: prun_None)
qed

lemma prun_elements:
  assumes "\<And>x m stk. x \<in> set xs \<Longrightarrow> value_mode m \<Longrightarrow>
             prun (Some (m, stk)) (toks x) = deliver x stk"
    and "xs \<noteq> []" "value_mode m"
  shows "prun (Some (m, FArr acc # stk)) (sep_toks (map toks xs) @ [TRBrack])
         = deliver (JArr (rev acc @ xs)) stk"
  using assms
proof (induction xs arbitrary: acc m rule: induct_list012)
  case 1
  then show ?case by simp
next
  case (2 x)
  then show ?case by (simp add: prun_append)
next
  case (3 x y zs)
  have "prun (Some (ExpValue, FArr (x # acc) # stk)) (sep_toks (map toks (y # zs)) @ [TRBrack])
        = deliver (JArr (rev (x # acc) @ y # zs)) stk"
    by (rule 3(2)) (use "3.prems" in \<open>auto simp: value_mode_def\<close>)
  with "3.prems" show ?case by (simp add: prun_append)
qed

lemma prun_members:
  assumes "\<And>p m stk. p \<in> set ms \<Longrightarrow> value_mode m \<Longrightarrow>
             prun (Some (m, stk)) (toks (snd p)) = deliver (snd p) stk"
    and "ms \<noteq> []" "m = ExpKeyOrClose \<or> m = ExpKey"
  shows "prun (Some (m, FObj acc # stk))
           (sep_toks (map (\<lambda>p. TStr (fst p) # TColon # toks (snd p)) ms) @ [TRBrace])
         = deliver (JObj (rev acc @ ms)) stk"
  using assms
proof (induction ms arbitrary: acc m rule: induct_list012)
  case 1
  then show ?case by simp
next
  case (2 p)
  have "prun (Some (ExpValue, FKey acc (fst p) # stk)) (toks (snd p))
        = deliver (snd p) (FKey acc (fst p) # stk)"
    by (rule 2(1)) (simp_all add: value_mode_def)
  with 2(3) show ?case by (cases p) (auto simp: prun_append)
next
  case (3 p q zs)
  let ?tk = "\<lambda>p. TStr (fst p) # TColon # toks (snd p)"
  have v: "prun (Some (ExpValue, FKey acc (fst p) # stk)) (toks (snd p))
        = deliver (snd p) (FKey acc (fst p) # stk)"
    by (rule "3.prems"(1)) (simp_all add: value_mode_def)
  have r: "prun (Some (ExpKey, FObj (p # acc) # stk)) (sep_toks (map ?tk (q # zs)) @ [TRBrace])
        = deliver (JObj (rev (p # acc) @ q # zs)) stk"
    by (rule 3(2)) (use "3.prems" in auto)
  from "3.prems"(3) v r show ?case by (cases p) (auto simp: prun_append)
qed

lemma prun_toks:
  "value_mode m \<Longrightarrow> prun (Some (m, stk)) (toks j) = deliver j stk"
proof (induction j arbitrary: m stk)
  case JNull
  then show ?case by (auto simp: value_mode_def)
next
  case (JBool b)
  then show ?case by (auto simp: value_mode_def)
next
  case (JNum n)
  then show ?case by (auto simp: value_mode_def)
next
  case (JStr s)
  then show ?case by (auto simp: value_mode_def)
next
  case (JArr xs)
  show ?case
  proof (cases "xs = []")
    case True
    with JArr.prems show ?thesis by (auto simp: value_mode_def)
  next
    case False
    have "prun (Some (ExpValueOrClose, FArr [] # stk)) (sep_toks (map toks xs) @ [TRBrack])
          = deliver (JArr (rev [] @ xs)) stk"
      by (rule prun_elements) (use JArr.IH False in \<open>auto simp: value_mode_def\<close>)
    with JArr.prems show ?thesis by (auto simp: value_mode_def)
  qed
next
  case (JObj ms)
  show ?case
  proof (cases "ms = []")
    case True
    with JObj.prems show ?thesis by (auto simp: value_mode_def)
  next
    case False
    have "prun (Some (ExpKeyOrClose, FObj [] # stk))
            (sep_toks (map (\<lambda>p. TStr (fst p) # TColon # toks (snd p)) ms) @ [TRBrace])
          = deliver (JObj (rev [] @ ms)) stk"
    proof (rule prun_members)
      fix p m stk assume p: "p \<in> set ms" "value_mode m"
      have "snd p \<in> Basic_BNFs.snds p" by (cases p) simp
      with JObj.IH p show "prun (Some (m, stk)) (toks (snd p)) = deliver (snd p) stk" by blast
    qed (use False in auto)
    with JObj.prems show ?thesis by (auto simp: value_mode_def)
  qed
qed

lemma parse_json_print_json: "wf_json j \<Longrightarrow> parse_json (print_json j) = Some j"
proof -
  assume "wf_json j"
  then have "lex (print_json j @ []) = emits (toks j) (lex [])"
    by (rule lex_print_json) (simp add: sep_def)
  then have "lex (print_json j) = Some (toks j)" by (simp add: emits_def)
  moreover have "prun (Some (ExpValue, [])) (toks j) = deliver j []"
    by (rule prun_toks) (simp add: value_mode_def)
  ultimately show ?thesis by (simp add: parse_json_def parse_tokens_def)
qed

subsection \<open>Unmarshal after Marshal\<close>

lemma ToLower_tags:
  "ToLower ''name'' = ''name''" "ToLower ''color'' = ''color''" "ToLower ''size'' = ''size''"
  "ToLower ''user'' = ''user''" "ToLower ''amount'' = ''amount''"
  "ToLower ''timestamp'' = ''timestamp''" "ToLower ''want'' = ''want''"
  "ToLower ''willing'' = ''willing''" "ToLower ''open_trades'' = ''open_trades''"
  by (simp_all add: ToLower_def to_lower_def)

lemma decode_int_FormatInt: "decode_int (JNum (FormatInt w)) cur = w"
  by (simp add: decode_int_def ParseInt_FormatInt)

lemma decode_json_of_Bet: "decode_Bet (json_of_Bet b) cur = b"
  by (cases b, cases cur)
     (simp add: decode_Bet_def json_of_Bet_def set_Bet_field_def ToLower_tags
        decode_string_def decode_int_FormatInt)

lemma decode_json_of_Description: "decode_Description (json_of_Description d) cur = d"
  by (cases d, cases cur)
     (simp add: decode_Description_def json_of_Description_def set_Description_field_def
        ToLower_tags decode_string_def decode_int_FormatInt)

lemma decode_json_of_slice:
  assumes "\<And>x. f (g x) = x"
  shows "decode_slice f (json_of_slice g s) cur = s"
  using assms by (cases s) (simp_all add: decode_slice_def json_of_slice_def map_idI)

lemma decode_json_of_AnOpenTrade: "decode_AnOpenTrade (json_of_AnOpenTrade t) cur = t"
proof -
  have w: "decode_slice (\<lambda>x. decode_Description x zero_Description)
             (json_of_slice json_of_Description s) c = s" for s c
    by (rule decode_json_of_slice) (rule decode_json_of_Description)
  show ?thesis
    by (cases t, cases cur)
       (simp add: decode_AnOpenTrade_def json_of_AnOpenTrade_def set_AnOpenTrade_field_def
          ToLower_tags decode_string_def decode_int_FormatInt decode_json_of_Description w)
qed

lemma decode_json_of_AllTrades: "decode_AllTrades (json_of_AllTrades a) cur = a"
proof -
  have "decode_slice (\<lambda>x. decode_AnOpenTrade x zero_AnOpenTrade)
             (json_of_slice json_of_AnOpenTrade s) c = s" for s c
    by (rule decode_json_of_slice) (rule decode_json_of_AnOpenTrade)
  then show ?thesis
    by (cases a, cases cur)
       (simp add: decode_AllTrades_def json_of_AllTrades_def set_AllTrades_field_def ToLower_tags)
qed

lemma wf_json_of_slice: "(\<And>x. wf_json (g x)) \<Longrightarrow> wf_json (json_of_slice g s)"
  by (cases s) (simp_all add: json_of_slice_def list_all_iff)

lemma wf_json_of_Bet: "wf_json (json_of_Bet b)"
  by (simp add: json_of_Bet_def numlit_FormatInt)

lemma wf_json_of_Description: "wf_json (json_of_Description d)"
  by (simp add: json_of_Description_def numlit_FormatInt)

lemma wf_json_of_AnOpenTrade: "wf_json (json_of_AnOpenTrade t)"
  by (simp add: json_of_AnOpenTrade_def numlit_FormatInt wf_json_of_Description wf_json_of_slice)

lemma wf_json_of_AllTrades: "wf_json (json_of_AllTrades a)"
  by (simp add: json_of_AllTrades_def wf_json_of_AnOpenTrade wf_json_of_slice)

lemma Unmarshal_Marshal_Bet: "Unmarshal_Bet (Marshal_Bet b) cur = b"
  by (simp add: Unmarshal_Bet_def Marshal_Bet_def parse_json_print_json wf_json_of_Bet
      decode_json_of_Bet)

lemma Unmarshal_Marshal_AllTrades: "Unmarshal_AllTrades (Marshal_AllTrades a) cur = a"
  by (simp add: Unmarshal_AllTrades_def Marshal_AllTrades_def parse_json_print_json
      wf_json_of_AllTrades decode_json_of_AllTrades)


subsection \<open>The loops of cleanTrades\<close>

text \<open>
  The index arithmetic of the two loops visits every option of every trade once: the
  inner loop leaves the options that resolve, in their order, and the outer one the
  cleaned trades that still have an option. The flag is raised exactly when an option or
  a trade was cut out.
\<close>

lemma len_Slice: "len (Slice xs) = int (length xs)"
  by (simp add: len_def)

lemma at_Slice: "p < length xs \<Longrightarrow> at (Slice xs) (int p) = Some (xs ! p)"
  by (simp add: at_def len_def)

lemma remove_at_Slice: "remove_at (Slice xs) (int p) = Slice (take p xs @ drop (Suc p) xs)"
  by (simp add: remove_at_def)

lemma set_at_Slice: "set_at (Slice xs) (int p) v = Slice (xs[p := v])"
  by (simp add: set_at_def)

lemma cleanTrades_options_Slice:
  "p \<le> length xs \<Longrightarrow>
   cleanTrades_options stub user (Slice xs) (int p) dw =
     Some (Slice (take p xs @ filter (resolves stub user) (drop p xs)),
           dw \<or> \<not> list_all (resolves stub user) (drop p xs))"
proof (induction "length xs - p" arbitrary: xs p dw rule: less_induct)
  case less
  let ?P = "resolves stub user"
  show ?case
  proof (cases "p < length xs")
    case False
    with less.prems have "p = length xs" by simp
    then show ?thesis
      by (subst cleanTrades_options.simps) (simp add: len_Slice)
  next
    case True
    then have dr: "drop p xs = xs ! p # drop (Suc p) xs"
      by (simp add: Cons_nth_drop_Suc)
    have tk: "take (Suc p) xs = take p xs @ [xs ! p]"
      using True by (simp add: take_Suc_conv_app_nth)
    show ?thesis
    proof (cases "?P (xs ! p)")
      case ok: True
      then obtain b where f: "findBet4Trade stub user (DColor (xs ! p)) (Amount (xs ! p)) = Inr b"
        by (auto simp: resolves_def split: sum.splits)
      show ?thesis
      proof (cases "Suc p < length xs")
        case more: True
        have "cleanTrades_options stub user (Slice xs) (int (Suc p)) dw =
            Some (Slice (take (Suc p) xs @ filter ?P (drop (Suc p) xs)),
                  dw \<or> \<not> list_all ?P (drop (Suc p) xs))"
          by (rule less.hyps) (use more in auto)
        then have "cleanTrades_options stub user (Slice xs) (int p + 1) dw =
            Some (Slice (take (Suc p) xs @ filter ?P (drop (Suc p) xs)),
                  dw \<or> \<not> list_all ?P (drop (Suc p) xs))"
          by (simp add: add.commute)
        with True more ok f show ?thesis
          by (subst cleanTrades_options.simps) (simp add: len_Slice at_Slice dr tk)
      next
        case last: False
        with True have e: "drop (Suc p) xs = []" by simp
        have "xs = take (Suc p) xs" using last by simp
        then have x: "take p xs @ [xs ! p] = xs" using tk by simp
        from True last ok f e x show ?thesis
          by (subst cleanTrades_options.simps)
             (simp add: len_Slice at_Slice dr)
      qed
    next
      case bad: False
      then obtain e where f: "findBet4Trade stub user (DColor (xs ! p)) (Amount (xs ! p)) = Inl e"
        by (auto simp: resolves_def split: sum.splits)
      define xs' where "xs' = take p xs @ drop (Suc p) xs"
      have l': "length xs' = length xs - 1" using True by (simp add: xs'_def)
      have t': "take p xs' = take p xs" "drop p xs' = drop (Suc p) xs"
        using True by (simp_all add: xs'_def)
      have rm: "remove_at (Slice xs) (int p) = Slice xs'"
        by (simp add: remove_at_Slice xs'_def)
      show ?thesis
      proof (cases "p < length xs'")
        case more: True
        have "cleanTrades_options stub user (Slice xs') (int p) True =
            Some (Slice (take p xs' @ filter ?P (drop p xs')),
                  True \<or> \<not> list_all ?P (drop p xs'))"
          by (rule less.hyps) (use more True l' in auto)
        then have ih: "cleanTrades_options stub user (Slice xs') (int p) True =
            Some (Slice (take p xs @ filter ?P (drop (Suc p) xs)), True)"
          by (simp add: t')
        from True more bad f show ?thesis
          by (subst cleanTrades_options.simps)
             (simp add: len_Slice at_Slice rm ih dr)
      next
        case last: False
        with True l' have e: "drop (Suc p) xs = []" by simp
        then have "xs' = take p xs" by (simp add: xs'_def)
        with True last bad f e show ?thesis
          by (subst cleanTrades_options.simps)
             (simp add: len_Slice at_Slice rm dr)
      qed
    qed
  qed
qed

lemma cleanTrades_options_retain:
  "cleanTrades_options stub user w 0 dw =
     Some (retain (resolves stub user) w, dw \<or> \<not> list_all (resolves stub user) (elems w))"
proof (cases w)
  case NilSlice
  then show ?thesis by (subst cleanTrades_options.simps) (simp add: len_def retain_def)
next
  case (Slice xs)
  with cleanTrades_options_Slice [of 0 xs stub user dw] show ?thesis
    by (simp add: retain_def)
qed

lemma elems_retain: "elems (retain P s) = filter P (elems s)"
  by (cases s) (simp_all add: retain_def)

lemma len_0_iff: "(len s = 0) = (elems s = [])"
  by (simp add: len_def)

lemma has_options_clean_trade:
  "has_options (clean_trade stub tr) \<Longrightarrow>
     untouched stub tr = list_all (resolves stub (TUser tr)) (elems (Willing tr))"
  by (auto simp: has_options_def clean_trade_def untouched_def elems_retain)

lemma not_has_options_clean_trade:
  "\<not> has_options (clean_trade stub tr) \<Longrightarrow> \<not> untouched stub tr"
  by (auto simp: has_options_def clean_trade_def untouched_def elems_retain list_all_iff
      filter_empty_conv)

lemma cleanTrades_loop_Slice:
  "p \<le> length ts \<Longrightarrow>
   cleanTrades_loop stub (Slice ts) (int p) dw =
     Some (Slice (take p ts @ filter has_options (map (clean_trade stub) (drop p ts))),
           dw \<or> \<not> list_all (untouched stub) (drop p ts))"
proof (induction "length ts - p" arbitrary: ts p dw rule: less_induct)
  case less
  show ?case
  proof (cases "p < length ts")
    case False
    with less.prems have "p = length ts" by simp
    then show ?thesis
      by (subst cleanTrades_loop.simps) (simp add: len_Slice)
  next
    case True
    define tr where "tr = ts ! p"
    define tr' where "tr' = clean_trade stub tr"
    define dw1 where "dw1 = (dw \<or> \<not> list_all (resolves stub (TUser tr)) (elems (Willing tr)))"
    have dr: "drop p ts = tr # drop (Suc p) ts"
      using True by (simp add: Cons_nth_drop_Suc tr_def)
    have at: "at (Slice ts) (int p) = Some tr" using True by (simp add: at_Slice tr_def)
    have opt: "cleanTrades_options stub (TUser tr) (Willing tr) 0 dw = Some (Willing tr', dw1)"
      by (simp add: cleanTrades_options_retain tr'_def clean_trade_def dw1_def)
    have upd: "tr\<lparr>Willing := Willing tr'\<rparr> = tr'" by (simp add: tr'_def clean_trade_def)
    define ts1 where "ts1 = ts[p := tr']"
    have s1: "set_at (Slice ts) (int p) tr' = Slice ts1" by (simp add: set_at_Slice ts1_def)
    have l1: "length ts1 = length ts" by (simp add: ts1_def)
    show ?thesis
    proof (cases "has_options tr'")
      case keep: True
      then have nz: "len (Willing tr') \<noteq> 0" by (simp add: len_0_iff has_options_def)
      have tk1: "take (Suc p) ts1 = take p ts @ [tr']" "drop (Suc p) ts1 = drop (Suc p) ts"
        using True by (simp_all add: ts1_def take_Suc_conv_app_nth)
      have un: "untouched stub tr = list_all (resolves stub (TUser tr)) (elems (Willing tr))"
        using keep unfolding tr'_def by (rule has_options_clean_trade)
      have rhs: "Some (Slice (take p ts @ filter has_options (map (clean_trade stub) (drop p ts))),
                       dw \<or> \<not> list_all (untouched stub) (drop p ts)) =
                 Some (Slice (take p ts @ tr' # filter has_options (map (clean_trade stub) (drop (Suc p) ts))),
                       dw1 \<or> \<not> list_all (untouched stub) (drop (Suc p) ts))"
        using keep un by (auto simp: dr tr'_def [symmetric] dw1_def)
      show ?thesis
      proof (cases "Suc p < length ts")
        case more: True
        have "cleanTrades_loop stub (Slice ts1) (int (Suc p)) dw1 =
            Some (Slice (take (Suc p) ts1 @ filter has_options (map (clean_trade stub) (drop (Suc p) ts1))),
                  dw1 \<or> \<not> list_all (untouched stub) (drop (Suc p) ts1))"
          by (rule less.hyps) (use more l1 in auto)
        then have ih: "cleanTrades_loop stub (Slice ts1) (int p + 1) dw1 =
            Some (Slice (take p ts @ tr' # filter has_options (map (clean_trade stub) (drop (Suc p) ts))),
                  dw1 \<or> \<not> list_all (untouched stub) (drop (Suc p) ts))"
          by (simp add: tk1 add.commute)
        have cmp: "\<not> int (length ts1) \<le> int p + 1" using more l1 by simp
        from True cmp show ?thesis
          unfolding rhs
          by (subst cleanTrades_loop.simps)
             (simp add: Let_def len_Slice at opt upd s1 nz ih del: of_nat_less_iff of_nat_le_iff)
      next
        case last: False
        with True have e: "drop (Suc p) ts = []" by simp
        have "ts1 = take (Suc p) ts1" using last l1 by simp
        then have x: "ts1 = take p ts @ [tr']" using tk1 by simp
        have cmp: "int (length ts1) \<le> int p + 1" using last l1 by simp
        from True cmp e show ?thesis
          unfolding rhs
          by (subst cleanTrades_loop.simps)
             (simp add: Let_def len_Slice at opt upd s1 nz x [symmetric] del: of_nat_less_iff of_nat_le_iff)
      qed
    next
      case drop: False
      then have z: "len (Willing tr') = 0" by (simp add: len_0_iff has_options_def)
      have un: "\<not> untouched stub tr"
        using drop unfolding tr'_def by (rule not_has_options_clean_trade)
      define ts2 where "ts2 = take p ts @ drop (Suc p) ts"
      have rm: "remove_at (Slice ts1) (int p) = Slice ts2"
        using True by (simp add: remove_at_Slice ts1_def ts2_def)
      have l2: "length ts2 = length ts - 1" using True by (simp add: ts2_def)
      have t2: "take p ts2 = take p ts" "drop p ts2 = drop (Suc p) ts"
        using True by (simp_all add: ts2_def)
      have rhs: "Some (Slice (take p ts @ filter has_options (map (clean_trade stub) (drop p ts))),
                       dw \<or> \<not> list_all (untouched stub) (drop p ts)) =
                 Some (Slice (take p ts @ filter has_options (map (clean_trade stub) (drop (Suc p) ts))),
                       True)"
        using drop un by (auto simp: dr tr'_def [symmetric])
      show ?thesis
      proof (cases "p < length ts2")
        case more: True
        have "cleanTrades_loop stub (Slice ts2) (int p) True =
            Some (Slice (take p ts2 @ filter has_options (map (clean_trade stub) (drop p ts2))),
                  True \<or> \<not> list_all (untouched stub) (drop p ts2))"
          by (rule less.hyps) (use more True l2 in auto)
        then have ih: "cleanTrades_loop stub (Slice ts2) (int p) True =
            Some (Slice (take p ts @ filter has_options (map (clean_trade stub) (drop (Suc p) ts))),
                  True)"
          by (simp add: t2)
        have cmp: "\<not> int (length ts2) \<le> int p" using more by simp
        from True cmp show ?thesis
          unfolding rhs
          by (subst cleanTrades_loop.simps)
             (simp add: Let_def len_Slice at opt upd s1 z rm ih del: of_nat_less_iff of_nat_le_iff)
      next
        case last: False
        with True l2 have e: "drop (Suc p) ts = []" by simp
        then have "ts2 = take p ts" by (simp add: ts2_def)
        moreover have cmp: "int (length ts2) \<le> int p" using last by simp
        ultimately show ?thesis
          using True e unfolding rhs
          by (subst cleanTrades_loop.simps)
             (simp add: Let_def len_Slice at opt upd s1 z rm del: of_nat_less_iff of_nat_le_iff)
      qed
    qed
  qed
qed

lemma cleanTrades_loop_reconciled:
  "cleanTrades_loop stub trades 0 False =
     Some (reconciled stub trades, \<not> list_all (untouched stub) (elems trades))"
proof (cases trades)
  case NilSlice
  then show ?thesis
    by (subst cleanTrades_loop.simps) (simp add: len_def reconciled_def retain_def)
next
  case (Slice ts)
  with cleanTrades_loop_Slice [of 0 ts stub False] show ?thesis
    by (simp add: reconciled_def retain_def)
qed

subsection \<open>What cleanTrades computes\<close>

lemma untouched_clean_trade: "untouched stub tr \<Longrightarrow> clean_trade stub tr = tr \<and> has_options tr"
  by (cases "Willing tr")
     (auto simp: untouched_def clean_trade_def has_options_def retain_def list_all_iff filter_id_conv)

lemma reconciled_untouched:
  "list_all (untouched stub) (elems trades) \<Longrightarrow> reconciled stub trades = trades"
proof (cases trades)
  case NilSlice
  then show ?thesis by (simp add: reconciled_def retain_def)
next
  case (Slice ts)
  assume "list_all (untouched stub) (elems trades)"
  with Slice have a: "\<forall>tr \<in> set ts. clean_trade stub tr = tr \<and> has_options tr"
    by (auto simp: list_all_iff dest: untouched_clean_trade)
  then have "map (clean_trade stub) ts = ts" by (simp add: map_idI)
  moreover from a have "filter has_options ts = ts" by (simp add: filter_id_conv)
  ultimately show ?thesis using Slice by (simp add: reconciled_def retain_def)
qed

lemma elems_reconciled:
  "elems (reconciled stub trades) = filter has_options (map (clean_trade stub) (elems trades))"
  by (cases trades) (simp_all add: reconciled_def retain_def)

lemma AllTrades_update: "(a :: AllTrades)\<lparr>OpenTrades := ts\<rparr> = \<lparr>OpenTrades = ts\<rparr>"
  by (cases a) simp

lemma cleanTrades_eq:
  "cleanTrades stub =
     (None, if list_all (untouched stub) (elems (order_book stub)) then stub
            else PutState stub openTradesStr
                   (Marshal_AllTrades \<lparr>OpenTrades = reconciled stub (order_book stub)\<rparr>))"
  by (simp add: cleanTrades_def Let_def order_book_def [symmetric] cleanTrades_loop_reconciled
      AllTrades_update)

lemma order_book_PutState:
  "order_book (PutState stub openTradesStr (Marshal_AllTrades a)) = OpenTrades a"
  by (simp add: order_book_def GetState_PutState Unmarshal_Marshal_AllTrades)

lemma order_book_cleanTrades:
  "order_book (snd (cleanTrades stub)) = reconciled stub (order_book stub)"
  by (simp add: cleanTrades_eq order_book_PutState reconciled_untouched)

lemma reconciled_resolves:
  assumes "tr \<in> set (elems (reconciled stub trades))"
  shows "elems (Willing tr) \<noteq> []" and "d \<in> set (elems (Willing tr)) \<Longrightarrow> resolves stub (TUser tr) d"
proof -
  from assms obtain tr0 where tr: "tr = clean_trade stub tr0" and h: "has_options tr"
    by (auto simp: elems_reconciled)
  from h show "elems (Willing tr) \<noteq> []" by (simp add: has_options_def)
  assume "d \<in> set (elems (Willing tr))"
  then show "resolves stub (TUser tr) d"
    by (simp add: tr clean_trade_def elems_retain)
qed

lemma findBet4Trade_loop_cong:
  assumes "\<And>n. n \<in> set ns \<Longrightarrow> GetState stub' n = GetState stub n"
  shows "findBet4Trade_loop stub' user color sz ns = findBet4Trade_loop stub user color sz ns"
  using assms by (induction ns) (simp_all add: Let_def)

lemma findBet4Trade_PutState:
  assumes "k \<noteq> betIndexStr" "k \<notin> set (elems (bet_index stub))"
  shows "findBet4Trade (PutState stub k v) user color sz = findBet4Trade stub user color sz"
proof -
  have i: "GetState (PutState stub k v) betIndexStr = GetState stub betIndexStr"
    using assms(1) by (simp add: GetState_PutState)
  have "findBet4Trade_loop (PutState stub k v) user color sz (elems (bet_index stub))
        = findBet4Trade_loop stub user color sz (elems (bet_index stub))"
    by (rule findBet4Trade_loop_cong) (use assms(2) in \<open>auto simp: GetState_PutState\<close>)
  then show ?thesis by (simp add: findBet4Trade_def Let_def i bet_index_def)
qed

lemma findBet4Trade_cleanTrades:
  assumes "openTradesStr \<notin> set (elems (bet_index stub))"
  shows "findBet4Trade (snd (cleanTrades stub)) user color sz = findBet4Trade stub user color sz"
  using assms
  by (simp add: cleanTrades_eq findBet4Trade_PutState openTradesStr_def betIndexStr_def)

lemma filter_map_eq_self:
  assumes "filter P (map f xs) = xs"
  shows "(\<forall>x \<in> set xs. P (f x) \<and> f x = x)"
proof -
  have "length (filter P (map f xs)) = length (map f xs)" using assms by simp
  then have a: "\<forall>y \<in> set (map f xs). P y"
    by (metis length_filter_less less_irrefl)
  then have "filter P (map f xs) = map f xs" by (simp add: filter_id_conv)
  with assms have "map f xs = xs" by simp
  then have "\<forall>x \<in> set xs. f x = x" by (simp add: map_idI list.map_ident_strong map_eq_conv [of f xs id, simplified])
  with a show ?thesis by auto
qed

lemma clean_trade_fixed:
  assumes "clean_trade stub tr = tr" "has_options tr"
  shows "untouched stub tr"
proof -
  from assms(1) have "Willing (clean_trade stub tr) = Willing tr" by simp
  then have "retain (resolves stub (TUser tr)) (Willing tr) = Willing tr"
    by (simp add: clean_trade_def)
  then have "filter (resolves stub (TUser tr)) (elems (Willing tr)) = elems (Willing tr)"
    by (metis elems_retain)
  then have "list_all (resolves stub (TUser tr)) (elems (Willing tr))"
    by (simp add: filter_id_conv list_all_iff)
  with assms(2) show ?thesis by (simp add: untouched_def has_options_def)
qed

lemma reconciled_fixed:
  assumes "reconciled stub trades = trades"
  shows "list_all (untouched stub) (elems trades)"
proof -
  from assms have "elems (reconciled stub trades) = elems trades" by simp
  then have "filter has_options (map (clean_trade stub) (elems trades)) = elems trades"
    by (simp add: elems_reconciled)
  then have "\<forall>tr \<in> set (elems trades). has_options (clean_trade stub tr) \<and> clean_trade stub tr = tr"
    by (rule filter_map_eq_self)
  then have "untouched stub tr" if "tr \<in> set (elems trades)" for tr
    using that clean_trade_fixed [of stub tr] by auto
  then show ?thesis by (simp add: list_all_iff)
qed

lemma untouched_cong:
  assumes "\<And>user color sz. findBet4Trade stub' user color sz = findBet4Trade stub user color sz"
  shows "untouched stub' tr = untouched stub tr"
proof -
  have "resolves stub' user d = resolves stub user d" for user d
    by (simp add: resolves_def assms)
  then have "resolves stub' = resolves stub" by (intro ext)
  then show ?thesis by (simp add: untouched_def)
qed

lemma reconciled_all_untouched: "list_all (untouched stub) (elems (reconciled stub trades))"
proof -
  have "untouched stub tr" if "tr \<in> set (elems (reconciled stub trades))" for tr
    using reconciled_resolves [OF that] by (auto simp: untouched_def list_all_iff)
  then show ?thesis by (simp add: list_all_iff)
qed



text \<open>
  C6, as the code has it. \<^verbatim>\<open>cleanTrades\<close> issues one write, of the cleaned
  order book under the order book key, when the pass has cut out an option or a trade,
  and no write otherwise; the pass cuts something out exactly when some trade of the book
  has no option or has an option that does not resolve. A second call, on the ledger the
  first call left, returns that ledger as it is - it removes nothing and writes nothing -
  whenever \<^verbatim>\<open>findBet4Trade\<close> answers on that ledger as it did before the first
  call, and so whenever the index does not list the order book key as a bet: the order
  book key is the one key the first call can have written.
\<close>

theorem cleanTrades_writes_iff_removed:
  "issued (snd (cleanTrades stub)) =
     (if reconciled stub (order_book stub) = order_book stub then issued stub
      else issued stub @
           [Put openTradesStr (Marshal_AllTrades \<lparr>OpenTrades = reconciled stub (order_book stub)\<rparr>)]) \<and>
   (reconciled stub (order_book stub) = order_book stub
      \<longleftrightarrow> list_all (untouched stub) (elems (order_book stub))) \<and>
   ((\<forall>user color sz. findBet4Trade (snd (cleanTrades stub)) user color sz
                       = findBet4Trade stub user color sz) \<longrightarrow>
    cleanTrades (snd (cleanTrades stub)) = (None, snd (cleanTrades stub))) \<and>
   (openTradesStr \<notin> set (elems (bet_index stub)) \<longrightarrow>
    cleanTrades (snd (cleanTrades stub)) = (None, snd (cleanTrades stub)))"
proof -
  let ?stub' = "snd (cleanTrades stub)"
  have iff: "reconciled stub (order_book stub) = order_book stub
      \<longleftrightarrow> list_all (untouched stub) (elems (order_book stub))"
    by (auto intro: reconciled_fixed reconciled_untouched)
  have wr: "issued ?stub' =
     (if reconciled stub (order_book stub) = order_book stub then issued stub
      else issued stub @
           [Put openTradesStr (Marshal_AllTrades \<lparr>OpenTrades = reconciled stub (order_book stub)\<rparr>)])"
    by (simp add: iff cleanTrades_eq issued_PutState)
  have idem: "cleanTrades ?stub' = (None, ?stub')"
    if same: "\<forall>user color sz. findBet4Trade ?stub' user color sz = findBet4Trade stub user color sz"
  proof -
    have "list_all (untouched stub) (elems (order_book ?stub'))"
      by (simp add: order_book_cleanTrades reconciled_all_untouched)
    moreover have "untouched ?stub' tr = untouched stub tr" for tr
      by (rule untouched_cong) (use same in simp)
    ultimately have "list_all (untouched ?stub') (elems (order_book ?stub'))"
      by (simp add: list_all_iff)
    then show ?thesis by (subst cleanTrades_eq) simp
  qed
  have idem': "cleanTrades ?stub' = (None, ?stub')"
    if "openTradesStr \<notin> set (elems (bet_index stub))"
    by (rule idem) (simp add: findBet4Trade_cleanTrades [OF that])
  from iff wr idem idem' show ?thesis by blast
qed

theorem cleanTrades_writes_iff_removed_witness:
  "issued (snd (cleanTrades stale_ledger)) \<noteq> issued stale_ledger \<and>
   openTradesStr \<notin> set (elems (bet_index stale_ledger)) \<and>
   cleanTrades (snd (cleanTrades stale_ledger)) = (None, snd (cleanTrades stale_ledger)) \<and>
   issued (snd (cleanTrades (snd (cleanTrades stale_ledger)))) = issued (snd (cleanTrades stale_ledger))"
proof -
  have nu: "\<not> list_all (untouched stale_ledger) (elems (order_book stale_ledger))"
    by code_simp
  have ix: "openTradesStr \<notin> set (elems (bet_index stale_ledger))"
    by code_simp
  from cleanTrades_writes_iff_removed [of stale_ledger] nu ix show ?thesis
    by simp
qed

text \<open>
  C6 as stated fails when the index lists the order book key. On the crafted ledger the
  first call removes the trade of owner 3 and writes the book; that write replaces the
  record that \<^verbatim>\<open>findBet4Trade\<close> read as the bet (red, 5) of owner 2, so the
  second call, with no operation in between, removes the trade of owner 2 and writes
  again.
\<close>

theorem cleanTrades_second_call_counterexample:
  \<open>(let stub = crafted_ledger;
        stub1 = snd (cleanTrades stub);
        stub2 = snd (cleanTrades stub1)
    in bet_index stub = Slice [''_opentrades''] \<and>
       order_book stub =
         Slice [\<lparr>TUser = ''2'', Timestamp = 1, Want = \<lparr>DColor = ''blue'', Amount = 10\<rparr>,
                  Willing = Slice [\<lparr>DColor = ''red'', Amount = 5\<rparr>]\<rparr>,
                \<lparr>TUser = ''3'', Timestamp = 2, Want = \<lparr>DColor = ''blue'', Amount = 10\<rparr>,
                  Willing = Slice [\<lparr>DColor = ''green'', Amount = 1\<rparr>]\<rparr>] \<and>
       order_book stub1 =
         Slice [\<lparr>TUser = ''2'', Timestamp = 1, Want = \<lparr>DColor = ''blue'', Amount = 10\<rparr>,
                  Willing = Slice [\<lparr>DColor = ''red'', Amount = 5\<rparr>]\<rparr>] \<and>
       order_book stub2 = Slice [] \<and>
       issued stub2 = issued stub1 @ [Put ''_opentrades'' ''{"open_trades":[]}''])\<close>
  by code_simp

subsection \<open>perform\_trade without a trade to perform\<close>

lemma perform_trade_loop_noop:
  assumes "\<forall>tr \<in> set (drop p (elems (OpenTrades trades))). Timestamp tr = timestamp \<longrightarrow>
             Color (Unmarshal_Bet (GetState stub (args ! 2)) zero_Bet) = DColor (Want tr) \<and>
             Size (Unmarshal_Bet (GetState stub (args ! 2)) zero_Bet) = Amount (Want tr) \<and>
             \<not> resolves stub (TUser tr) \<lparr>DColor = args ! 4, Amount = sz\<rparr>"
    and "n = len (OpenTrades trades)"
  shows "perform_trade_loop stub args timestamp sz trades n (int p) = (Inr [], stub)"
  using assms
proof (induction "length (elems (OpenTrades trades)) - p" arbitrary: p rule: less_induct)
  case less
  let ?ts = "elems (OpenTrades trades)"
  show ?case
  proof (cases "p < length ?ts")
    case False
    with less.prems(2) show ?thesis
      by (subst perform_trade_loop.simps) (simp add: len_def)
  next
    case True
    then have dr: "drop p ?ts = ?ts ! p # drop (Suc p) ?ts" by (simp add: Cons_nth_drop_Suc)
    have at: "at (OpenTrades trades) (int p) = Some (?ts ! p)" using True by (simp add: at_def len_def)
    have ih: "perform_trade_loop stub args timestamp sz trades n (int p + 1) = (Inr [], stub)"
    proof -
      have "perform_trade_loop stub args timestamp sz trades n (int (Suc p)) = (Inr [], stub)"
        by (rule less.hyps) (use True less.prems dr in auto)
      then show ?thesis by (simp add: add.commute)
    qed
    have lt: "int p < n" using True less.prems(2) by (simp add: len_def)
    show ?thesis
    proof (cases "Timestamp (?ts ! p) = timestamp")
      case False
      with lt show ?thesis
        by (subst perform_trade_loop.simps) (simp add: at ih)
    next
      case match: True
      with less.prems(1) dr
      have c: "Color (Unmarshal_Bet (GetState stub (args ! 2)) zero_Bet) = DColor (Want (?ts ! p))"
        "Size (Unmarshal_Bet (GetState stub (args ! 2)) zero_Bet) = Amount (Want (?ts ! p))"
        and nf: "\<not> resolves stub (TUser (?ts ! p)) \<lparr>DColor = args ! 4, Amount = sz\<rparr>"
        by auto
      from nf obtain e where f: "findBet4Trade stub (TUser (?ts ! p)) (args ! 4) sz = Inl e"
        by (auto simp: resolves_def split: sum.splits)
      from lt match show ?thesis
        by (subst perform_trade_loop.simps) (simp add: at ih c f Let_def)
    qed
  qed
qed

text \<open>
  Success without effect. Let \<^verbatim>\<open>perform_trade\<close> be called with at least six
  arguments, the first and the sixth numeric. If every open trade of the cited id (there
  may be none) is one whose wanted description the closer's bet carries byte for byte and
  for whose creator \<^verbatim>\<open>findBet4Trade\<close> finds no bet of the requested colour and
  size, the call returns success and the ledger is the one it was called on: no key has
  changed, no write was issued, and the trade is still in the book. (This is the
  operation itself; \<^verbatim>\<open>Invoke\<close> runs \<^verbatim>\<open>cleanTrades\<close> after it.)
\<close>

lemma perform_trade_noop:
  assumes "6 \<le> length args" and "ParseInt (args ! 0) = Some timestamp"
    and "Atoi (args ! 5) = Some sz"
    and "\<forall>tr \<in> set (elems (order_book stub)). Timestamp tr = timestamp \<longrightarrow>
           Color (Unmarshal_Bet (GetState stub (args ! 2)) zero_Bet) = DColor (Want tr) \<and>
           Size (Unmarshal_Bet (GetState stub (args ! 2)) zero_Bet) = Amount (Want tr) \<and>
           \<not> resolves stub (TUser tr) \<lparr>DColor = args ! 4, Amount = sz\<rparr>"
  shows "perform_trade stub args = (Inr [], stub)"
proof -
  have "perform_trade_loop stub args timestamp sz
          (Unmarshal_AllTrades (GetState stub openTradesStr) zero_AllTrades)
          (len (OpenTrades (Unmarshal_AllTrades (GetState stub openTradesStr) zero_AllTrades)))
          (int 0) = (Inr [], stub)"
    by (rule perform_trade_loop_noop) (use assms(4) in \<open>simp_all add: order_book_def\<close>)
  with assms(1-3) show ?thesis by (simp add: perform_trade_def Let_def)
qed

text \<open>
  C4 at a failing input. Bet \<open>A\<close> of owner 1 is (blue, 10), and the one open trade,
  of id 100 and owner 2, wants (\<^verbatim>\<open>Blue\<close>, 10): under the comparison rule for
  kinds, which ignores case, the closer's bet satisfies the wanted description. Owner 2
  holds no bet (green, 5), so \<^verbatim>\<open>findBet4Trade\<close> finds no candidate for that
  request. \<^verbatim>\<open>perform_trade\<close> does not return success: its own comparison of
  the two kinds is \<^verbatim>\<open>!=\<close> on the strings, and it returns the mismatch error
  before it looks for a candidate. With the wanted kind written \<^verbatim>\<open>blue\<close> the
  same call is the silent success of the claim.
\<close>

theorem perform_trade_noop_case_sensitive:
  \<open>order_book (trading_ledger 100 ''Blue'') =
     Slice [\<lparr>TUser = ''2'', Timestamp = 100, Want = \<lparr>DColor = ''Blue'', Amount = 10\<rparr>,
              Willing = Slice [\<lparr>DColor = ''red'', Amount = 5\<rparr>]\<rparr>] \<and>
   Unmarshal_Bet (GetState (trading_ledger 100 ''Blue'') ''A'') zero_Bet
     = \<lparr>Name = ''A'', Color = ''blue'', Size = 10, User = ''1''\<rparr> \<and>
   ToLower ''blue'' = ToLower ''Blue'' \<and>
   findBet4Trade (trading_ledger 100 ''Blue'') ''2'' ''green'' 5
     = Inl (Err ''Did not find bet to use in this trade'') \<and>
   fst (perform_trade (trading_ledger 100 ''Blue'') [''100'', ''1'', ''A'', ''2'', ''green'', ''5''])
     = Inl (Err ''bet in input does not meet trade requriements'') \<and>
   fst (perform_trade (trading_ledger 100 ''blue'') [''100'', ''1'', ''A'', ''2'', ''green'', ''5''])
     = Inr []\<close>
  by code_simp

subsection \<open>The record text of init\_bet reads back\<close>
















subsection \<open>set\_user\<close>



subsection \<open>init\_bet\<close>












subsection \<open>Errors and writes\<close>





















subsection \<open>The comparisons of perform\_trade\<close>

text \<open>
  C1 at a failing input. Bet \<open>A\<close> was created with color \<^verbatim>\<open>blue\<close>
  (\<^verbatim>\<open>init_bet\<close> stores colors in lower case), and the open trade wants
  \<^verbatim>\<open>Blue\<close>, 10 (\<^verbatim>\<open>open_trade\<close> stores the wanted color as given).
  \<^verbatim>\<open>perform_trade\<close> compares the two colors with \<^verbatim>\<open>!=\<close> and rejects
  the bet, while \<^verbatim>\<open>findBet4Trade\<close>, which lower-cases both sides, finds that
  very bet for the color \<^verbatim>\<open>Blue\<close>; with the wanted color written
  \<^verbatim>\<open>blue\<close> the same call succeeds.
\<close>

theorem perform_trade_kind_case_sensitive:
  \<open>order_book (trading_ledger 100 ''Blue'') =
     Slice [\<lparr>TUser = ''2'', Timestamp = 100, Want = \<lparr>DColor = ''Blue'', Amount = 10\<rparr>,
              Willing = Slice [\<lparr>DColor = ''red'', Amount = 5\<rparr>]\<rparr>] \<and>
   Unmarshal_Bet (GetState (trading_ledger 100 ''Blue'') ''A'') zero_Bet
     = \<lparr>Name = ''A'', Color = ''blue'', Size = 10, User = ''1''\<rparr> \<and>
   fst (perform_trade (trading_ledger 100 ''Blue'') [''100'', ''1'', ''A'', ''2'', ''red'', ''5''])
     = Inl (Err ''bet in input does not meet trade requriements'') \<and>
   findBet4Trade (trading_ledger 100 ''Blue'') ''1'' ''Blue'' 10
     = Inr \<lparr>Name = ''A'', Color = ''blue'', Size = 10, User = ''1''\<rparr> \<and>
   fst (perform_trade (trading_ledger 100 ''blue'') [''100'', ''1'', ''A'', ''2'', ''red'', ''5''])
     = Inr []\<close>
  by code_simp

subsection \<open>The swap scenario\<close>

lemma stocked_ledger_steps:
  "fst (Init fresh_stub [''0'']) = Inr []"
  "fst (init_bet (snd (Init fresh_stub [''0''])) [''A'', ''blue'', ''10'', ''1'']) = Inr []"
  "fst (init_bet (snd (init_bet (snd (Init fresh_stub [''0''])) [''A'', ''blue'', ''10'', ''1'']))
          [''B'', ''red'', ''5'', ''2'']) = Inr []"
  "snd (init_bet (snd (init_bet (snd (Init fresh_stub [''0''])) [''A'', ''blue'', ''10'', ''1'']))
          [''B'', ''red'', ''5'', ''2'']) = stocked_ledger"
  by (code_simp, code_simp, code_simp, simp add: stocked_ledger_def Let_def)

lemma stocked_ledger_reads:
  "Unmarshal_AllTrades (GetState stocked_ledger openTradesStr) zero_AllTrades
     = \<lparr>OpenTrades = NilSlice\<rparr>"
  "Unmarshal_strings (GetState stocked_ledger betIndexStr) NilSlice = Slice [''A'', ''B'']"
  "Unmarshal_Bet (GetState stocked_ledger ''A'') zero_Bet
     = \<lparr>Name = ''A'', Color = ''blue'', Size = 10, User = ''1''\<rparr>"
  "Unmarshal_Bet (GetState stocked_ledger ''B'') zero_Bet
     = \<lparr>Name = ''B'', Color = ''red'', Size = 5, User = ''2''\<rparr>"
  by code_simp+

lemma Atoi_amounts: "Atoi ''10'' = Some 10" "Atoi ''5'' = Some 5"
  by code_simp+

lemma ToLower_scenario: "ToLower ''1'' = ''1''" "ToLower ''2'' = ''2''" "ToLower ''red'' = ''red''"
  "ToLower ''blue'' = ''blue''"
  by code_simp+

lemma open_trade_stocked:
  "open_trade stocked_ledger now [''2'', ''blue'', ''10'', ''red'', ''5'']
     = (Inr [], ordered_ledger now)"
proof -
  let ?args = "[''2'', ''blue'', ''10'', ''red'', ''5'']"
  let ?opn = "(the_order now)\<lparr>Willing := NilSlice\<rparr>"
  let ?s1 = "PutState stocked_ledger ''_debug1'' (Marshal_AnOpenTrade ?opn)"
  let ?s2 = "PutState ?s1 ''_debug2'' (Marshal_Description \<lparr>DColor = ''red'', Amount = 5\<rparr>)"
  have l: "open_trade_loop ?s1 ?args ?opn 3 = (Inr (the_order now), ?s2)"
    by (subst open_trade_loop.simps, simp add: Atoi_amounts Let_def)
       (subst open_trade_loop.simps, simp add: the_order_def append1_def)
  have g: "GetState ?s2 openTradesStr = GetState stocked_ledger openTradesStr"
    by (simp add: GetState_PutState openTradesStr_def)
  have o: "\<lparr>TUser = ''2'', Timestamp = now, Want = \<lparr>DColor = ''blue'', Amount = 10\<rparr>,
            Willing = NilSlice\<rparr> = ?opn"
    by (simp add: the_order_def)
  show ?thesis
    by (simp add: open_trade_def Atoi_amounts Let_def o l g stocked_ledger_reads
        append1_def ordered_ledger_def del: One_nat_def)
qed

lemma ordered_ledger_reads:
  "GetState (ordered_ledger now) openTradesStr = Marshal_AllTrades \<lparr>OpenTrades = Slice [the_order now]\<rparr>"
  "GetState (ordered_ledger now) betIndexStr = GetState stocked_ledger betIndexStr"
  "GetState (ordered_ledger now) ''A'' = GetState stocked_ledger ''A''"
  "GetState (ordered_ledger now) ''B'' = GetState stocked_ledger ''B''"
  by (simp_all add: ordered_ledger_def GetState_PutState openTradesStr_def betIndexStr_def)

lemma findBet4Trade_ordered:
  "findBet4Trade (ordered_ledger now) ''2'' ''red'' 5
     = Inr \<lparr>Name = ''B'', Color = ''red'', Size = 5, User = ''2''\<rparr>"
  by (simp add: findBet4Trade_def Let_def ordered_ledger_reads stocked_ledger_reads ToLower_scenario)

lemma perform_trade_ordered:
  "perform_trade (ordered_ledger now) [Itoa now, ''1'', ''A'', ''2'', ''red'', ''5'']
     = (Inr [], swapped_ledger now)"
proof -
  let ?args = "[Itoa now, ''1'', ''A'', ''2'', ''red'', ''5'']"
  let ?L = "ordered_ledger now"
  let ?trades = "\<lparr>OpenTrades = Slice [the_order now]\<rparr>"
  have a: "at (Slice [the_order now]) 0 = Some (the_order now)" by (simp add: at_def len_def)
  have s1: "set_user ?L [''A'', ''2'']
        = (Inr [], PutState ?L ''A'' (Marshal_Bet \<lparr>Name = ''A'', Color = ''blue'', Size = 10, User = ''2''\<rparr>))"
    by (simp add: set_user_def Let_def ordered_ledger_reads stocked_ledger_reads)
  have s2: "set_user (PutState ?L ''A'' (Marshal_Bet \<lparr>Name = ''A'', Color = ''blue'', Size = 10, User = ''2''\<rparr>))
                [''B'', ''1'']
        = (Inr [], PutState (PutState ?L ''A'' (Marshal_Bet \<lparr>Name = ''A'', Color = ''blue'', Size = 10, User = ''2''\<rparr>))
                     ''B'' (Marshal_Bet \<lparr>Name = ''B'', Color = ''red'', Size = 5, User = ''1''\<rparr>))"
    by (simp add: set_user_def Let_def GetState_PutState ordered_ledger_reads stocked_ledger_reads)
  have sel: "TUser (the_order now) = ''2''" "Timestamp (the_order now) = now"
    "Want (the_order now) = \<lparr>DColor = ''blue'', Amount = 10\<rparr>"
    by (simp_all add: the_order_def)
  have e: "perform_trade_loop (swapped_ledger now) ?args now 5 \<lparr>OpenTrades = Slice []\<rparr> 1 1
        = (Inr [], swapped_ledger now)"
    by (subst perform_trade_loop.simps) simp
  have l: "perform_trade_loop ?L ?args now 5 ?trades 1 0 = (Inr [], swapped_ledger now)"
    by (subst perform_trade_loop.simps)
       (simp add: a Let_def sel ordered_ledger_reads stocked_ledger_reads findBet4Trade_ordered
          s1 s2 remove_at_def swapped_ledger_def [symmetric] e del: One_nat_def)
  show ?thesis
    by (simp add: perform_trade_def Itoa_def ParseInt_FormatInt Atoi_amounts Let_def
        ordered_ledger_reads Unmarshal_Marshal_AllTrades len_def l [unfolded Itoa_def])
qed

lemma swapped_ledger_reads:
  "order_book (swapped_ledger now) = Slice []"
  "Unmarshal_Bet (GetState (swapped_ledger now) ''A'') zero_Bet
     = \<lparr>Name = ''A'', Color = ''blue'', Size = 10, User = ''2''\<rparr>"
  "Unmarshal_Bet (GetState (swapped_ledger now) ''B'') zero_Bet
     = \<lparr>Name = ''B'', Color = ''red'', Size = 5, User = ''1''\<rparr>"
proof -
  show "order_book (swapped_ledger now) = Slice []"
    by (simp add: swapped_ledger_def order_book_PutState)
  show "Unmarshal_Bet (GetState (swapped_ledger now) ''A'') zero_Bet
     = \<lparr>Name = ''A'', Color = ''blue'', Size = 10, User = ''2''\<rparr>"
    by (simp add: swapped_ledger_def GetState_PutState openTradesStr_def Unmarshal_Marshal_Bet)
  show "Unmarshal_Bet (GetState (swapped_ledger now) ''B'') zero_Bet
     = \<lparr>Name = ''B'', Color = ''red'', Size = 5, User = ''1''\<rparr>"
    by (simp add: swapped_ledger_def GetState_PutState openTradesStr_def Unmarshal_Marshal_Bet)
qed

lemma cleanTrades_swapped: "cleanTrades (swapped_ledger now) = (None, swapped_ledger now)"
  by (simp add: cleanTrades_eq swapped_ledger_reads)

text \<open>
  C2, as the code has it: the scenario with owners that \<^verbatim>\<open>init_bet\<close> accepts.
  On a fresh ledger, after \<^verbatim>\<open>init\<close>, bet \<open>A\<close> (blue, 10) is created for
  owner 1 and bet \<open>B\<close> (red, 5) for owner 2; owner 2 opens, at a time \<open>now\<close>, a
  trade wanting (blue, 10) and offering (red, 5), which the order book then lists under the
  id \<open>now\<close>; owner 1 performs the trade, citing that id in decimal, bet \<open>A\<close>
  and (red, 5). Whatever the clock reads at each of the five invocations, each of them
  succeeds; afterwards \<open>A\<close> belongs to owner 2, \<open>B\<close> to owner 1, and the order
  book is empty.
\<close>

theorem scenario_numeric_owners:
  "(let r1 = Invoke fresh_stub t1 ''init'' [''0''];
        r2 = Invoke (snd r1) t2 ''init_bet'' [''A'', ''blue'', ''10'', ''1''];
        r3 = Invoke (snd r2) t3 ''init_bet'' [''B'', ''red'', ''5'', ''2''];
        r4 = Invoke (snd r3) now ''open_trade'' [''2'', ''blue'', ''10'', ''red'', ''5''];
        r5 = Invoke (snd r4) t5 ''perform_trade'' [Itoa now, ''1'', ''A'', ''2'', ''red'', ''5'']
    in fst r1 = Inr [] \<and> fst r2 = Inr [] \<and> fst r3 = Inr [] \<and> fst r4 = Inr [] \<and> fst r5 = Inr [] \<and>
       order_book (snd r4) =
         Slice [\<lparr>TUser = ''2'', Timestamp = now, Want = \<lparr>DColor = ''blue'', Amount = 10\<rparr>,
                  Willing = Slice [\<lparr>DColor = ''red'', Amount = 5\<rparr>]\<rparr>] \<and>
       Unmarshal_Bet (GetState (snd r5) ''A'') zero_Bet
         = \<lparr>Name = ''A'', Color = ''blue'', Size = 10, User = ''2''\<rparr> \<and>
       Unmarshal_Bet (GetState (snd r5) ''B'') zero_Bet
         = \<lparr>Name = ''B'', Color = ''red'', Size = 5, User = ''1''\<rparr> \<and>
       order_book (snd r5) = Slice [])"
proof -
  have o: "order_book (ordered_ledger now) = Slice [the_order now]"
    by (simp add: ordered_ledger_def order_book_PutState)
  show ?thesis
    by (simp add: Invoke_def Let_def stocked_ledger_steps open_trade_stocked
        perform_trade_ordered and_cleanTrades_def cleanTrades_swapped swapped_ledger_reads o
        the_order_def)
qed

text \<open>
  C2 as stated fails at its first creation: the owner \<^verbatim>\<open>alice\<close> is not a
  numeric string, and \<^verbatim>\<open>init_bet\<close> rejects it.
\<close>

theorem scenario_alice_counterexample:
  "fst (Invoke fresh_stub 100 ''init'' [''0'']) = Inr [] \<and>
   fst (Invoke (snd (Invoke fresh_stub 100 ''init'' [''0''])) 100 ''init_bet''
          [''A'', ''blue'', ''10'', ''alice''])
     = Inl (Err ''4th argument must be a numeric string, 1 or 2'')"
  by code_simp

subsection \<open>The write operation of the dispatcher\<close>

lemma Unmarshal_strings_ghost: \<open>Unmarshal_strings ''["ghost"]'' NilSlice = Slice [''ghost'']\<close>
  by code_simp

text \<open>
  C9. \<^verbatim>\<open>Invoke\<close> accepts the function name \<^verbatim>\<open>write\<close>: for every pair of
  arguments (name, value), on every ledger, it succeeds and its whole effect is the one
  write of the value, byte for byte, under the key name: nothing is validated, the bet
  index is not maintained and \<^verbatim>\<open>cleanTrades\<close> is not run. The value is what the
  key reads afterwards. The name may be any key, the reserved ones included: after
  \<^verbatim>\<open>write("_betindex", ["ghost"])\<close> the index lists a bet that was never
  created, and the order book key \<^verbatim>\<open>_opentrades\<close> is overwritten the same way.
\<close>

theorem Invoke_write_verbatim:
  \<open>Invoke stub now ''write'' [name, val] = (Inr [], PutState stub name val) \<and>
   PutState stub name val =
     stub\<lparr>ledger := (ledger stub)(name \<mapsto> val), issued := issued stub @ [Put name val]\<rparr> \<and>
   GetState (snd (Invoke stub now ''write'' [name, val])) name = val \<and>
   GetState (snd (Invoke stub now ''write'' [openTradesStr, val])) openTradesStr = val \<and>
   Unmarshal_strings
     (GetState (snd (Invoke stub now ''write'' [betIndexStr, ''["ghost"]''])) betIndexStr)
     NilSlice = Slice [''ghost'']\<close>
proof (intro conjI)
  show "Invoke stub now ''write'' [name, val] = (Inr [], PutState stub name val)"
    by (simp add: Invoke_def Write_def)
  show "PutState stub name val =
     stub\<lparr>ledger := (ledger stub)(name \<mapsto> val), issued := issued stub @ [Put name val]\<rparr>"
    by (simp add: PutState_def)
  show "GetState (snd (Invoke stub now ''write'' [name, val])) name = val"
    by (simp add: Invoke_def Write_def GetState_PutState)
  show "GetState (snd (Invoke stub now ''write'' [openTradesStr, val])) openTradesStr = val"
    by (simp add: Invoke_def Write_def GetState_PutState)
  show \<open>Unmarshal_strings
     (GetState (snd (Invoke stub now ''write'' [betIndexStr, ''["ghost"]''])) betIndexStr)
     NilSlice = Slice [''ghost'']\<close>
    by (simp add: Invoke_def Write_def GetState_PutState Unmarshal_strings_ghost)
qed

end
